theory Spec2Isabelle
  imports Complex_Main "HOL-Library.AList" "HOL-Library.Signed_Division"
begin

section \<open>Data model (src/types.ts)\<close>

text \<open>
  The overlay engine of the Graph Link Types plugin: \<^verbatim>\<open>LinkManager\<close> (src/linkManager.ts)
  and the update loop of src/main.ts.

  Numbers of the source are JavaScript doubles. Opacities are only compared and copied
  (no arithmetic), so they are \<open>real\<close>; counters, the palette index and the legend offset
  take integer values only and are \<open>int\<close>. Screen coordinates, scale, fill colour and the
  drawn path of a line are presentation attributes that no property below reads; they are
  floating-point geometry and are left out of the objects.
\<close>

datatype LinkPair = PairNone | First | Second

text \<open>Identity of a display object created with \<^verbatim>\<open>new Text\<close> / \<^verbatim>\<open>new Graphics\<close>.\<close>

type_synonym elem = nat

text \<open>
  An endpoint of \<^verbatim>\<open>ObsidianLink\<close>. \<open>text_alpha\<close> is \<^verbatim>\<open>text.alpha\<close>; \<open>None\<close> when
  \<^verbatim>\<open>text\<close> or \<^verbatim>\<open>text.alpha\<close> is missing.
\<close>

record node =
  node_id :: string
  text_alpha :: "real option"

record ObsidianLink =
  source :: node
  target :: node

text \<open>
  A PIXI text object: its identity, its string (\<^verbatim>\<open>.text\<close>, taken to be the string the
  object was constructed with, also after \<^verbatim>\<open>destroy\<close>) and its opacity. A PIXI graphics
  object: its identity, the colour argument last given to \<^verbatim>\<open>lineStyle\<close> (\<open>None\<close> for
  \<^verbatim>\<open>undefined\<close>) and its opacity. A new object has opacity 1.
\<close>

record PixiText =
  tid :: elem
  ttext :: string
  talpha :: real

record PixiGraphics =
  gid :: elem
  lineColor :: "int option"
  galpha :: real

record GltLink =
  obsidianLink :: ObsidianLink
  pairStatus :: LinkPair
  pixiText :: "PixiText option"
  pixiGraphics :: "PixiGraphics option"

record GltLegendGraphic =
  color :: "int option"
  legendText :: PixiText
  legendGraphics :: PixiGraphics
  nUsing :: int

text \<open>
  The state: the fields of \<^verbatim>\<open>LinkManager\<close> that the operations change, together with the
  display list \<^verbatim>\<open>renderer.px.stage.children\<close> of the renderer handed to every call
  (restricted to the objects this code creates; it never inspects any other child) and the
  identity of the next object \<^verbatim>\<open>new\<close> will create. A JavaScript \<^verbatim>\<open>Map\<close> keeps insertion
  order, \<^verbatim>\<open>set\<close> on a present key keeps its place: an association list with
  \<open>AList.update\<close> and \<open>AList.delete\<close>.
\<close>

record LinkManager =
  linksMap :: "(string \<times> GltLink) list"
  tagColors :: "(string \<times> GltLegendGraphic) list"
  currentTagColorIndex :: int
  yOffset :: int
  children :: "elem list"
  nextObj :: nat

definition categoricalColors :: "int list" where
  "categoricalColors =
     [0xF44336, 0x03A9F4, 0xFF9800, 0x9C27B0, 0xCDDC39, 0x3F51B5, 0xFFC107, 0x00BCD4,
      0xE91E63, 0x4CAF50, 0xFF5722, 0x673AB7, 0x9E9E9E, 0x2196F3, 0x8BC34A, 0x795548,
      0x009688, 0x607D8B, 0xFFEB3B, 0x000000]"

definition lineHeight :: int where
  "lineHeight = 17"

text \<open>The constructor: empty maps, palette index 0, legend offset 5.\<close>

definition initial :: LinkManager where
  "initial = \<lparr>linksMap = [], tagColors = [], currentTagColorIndex = 0, yOffset = 5,
              children = [], nextObj = 0\<rparr>"

text \<open>
  The classification lookup \<^verbatim>\<open>getMetadataKeyForLink(sourceId, targetId)\<close> reads the external
  Dataview index; it is a parameter of the operations that call it (\<open>None\<close> for \<^verbatim>\<open>null\<close>).
\<close>

type_synonym resolver = "string \<Rightarrow> string \<Rightarrow> string option"

section \<open>Operations of LinkManager (src/linkManager.ts)\<close>

definition generateKey :: "string \<Rightarrow> string \<Rightarrow> string" where
  "generateKey sourceId targetId = sourceId @ ''-'' @ targetId"

definition linkKey :: "ObsidianLink \<Rightarrow> string" where
  "linkKey link = generateKey (node_id (source link)) (node_id (target link))"

definition linkReverseKey :: "ObsidianLink \<Rightarrow> string" where
  "linkReverseKey link = generateKey (node_id (target link)) (node_id (source link))"

text \<open>\<^verbatim>\<open>categoricalColors[i]\<close>: \<^verbatim>\<open>undefined\<close> out of range.\<close>

definition paletteAt :: "int \<Rightarrow> int option" where
  "paletteAt i = (if 0 \<le> i \<and> i < int (length categoricalColors)
                  then Some (categoricalColors ! nat i) else None)"

text \<open>\<^verbatim>\<open>new\<close>, \<^verbatim>\<open>stage.addChild\<close>, \<^verbatim>\<open>stage.removeChild\<close> (one occurrence is removed).\<close>

definition newObject :: "LinkManager \<Rightarrow> elem \<times> LinkManager" where
  "newObject s = (nextObj s, s\<lparr>nextObj := Suc (nextObj s)\<rparr>)"

definition addChild :: "elem \<Rightarrow> LinkManager \<Rightarrow> LinkManager" where
  "addChild c s = s\<lparr>children := children s @ [c]\<rparr>"

definition removeChild :: "elem \<Rightarrow> LinkManager \<Rightarrow> LinkManager" where
  "removeChild c s = s\<lparr>children := remove1 c (children s)\<rparr>"

definition removeIfAttached :: "elem \<Rightarrow> LinkManager \<Rightarrow> LinkManager" where
  "removeIfAttached c s = (if c \<in> set (children s) then removeChild c s else s)"

text \<open>
  JavaScript truthiness of an opacity: \<^verbatim>\<open>!alpha\<close> holds for a missing value and for 0
  (and for NaN, which \<open>real\<close> does not have).
\<close>

definition falsy :: "real option \<Rightarrow> bool" where
  "falsy a = (case a of None \<Rightarrow> True | Some v \<Rightarrow> v = 0)"

text \<open>
  The opacity chosen by \<^verbatim>\<open>updateLinkText\<close> (lines 400-418). The renderer, the link and its
  two endpoints are always present in the model, so the early returns of
  \<^verbatim>\<open>updateLinkText\<close> and \<^verbatim>\<open>updateLinkGraphics\<close> on a missing one have no branch.
\<close>

definition labelAlpha :: "ObsidianLink \<Rightarrow> bool \<Rightarrow> real" where
  "labelAlpha link tagNames =
     (if tagNames then
        (if falsy (text_alpha (target link)) \<or> falsy (text_alpha (source link)) then 9 / 10
         else (case (text_alpha (source link), text_alpha (target link)) of
                 (Some a, Some b) \<Rightarrow> max a b
               | _ \<Rightarrow> 9 / 10))
      else 0)"

definition updateLinkText :: "ObsidianLink \<Rightarrow> bool \<Rightarrow> LinkManager \<Rightarrow> LinkManager" where
  "updateLinkText link tagNames s =
     (case map_of (linksMap s) (linkKey link) of
        None \<Rightarrow> s
      | Some gltLink \<Rightarrow>
          (case pixiText gltLink of
             None \<Rightarrow> s
           | Some t \<Rightarrow>
               if tid t \<in> set (children s)
               then s\<lparr>linksMap := AList.update (linkKey link)
                        (gltLink\<lparr>pixiText := Some (t\<lparr>talpha := labelAlpha link tagNames\<rparr>)\<rparr>)
                        (linksMap s)\<rparr>
               else s))"

definition updateLinkGraphics :: "ObsidianLink \<Rightarrow> LinkManager \<Rightarrow> LinkManager" where
  "updateLinkGraphics link s =
     (case map_of (linksMap s) (linkKey link) of
        None \<Rightarrow> s
      | Some gltLink \<Rightarrow>
          (case pixiGraphics gltLink of
             None \<Rightarrow> s
           | Some g \<Rightarrow>
               if gid g \<in> set (children s)
               then s\<lparr>linksMap := AList.update (linkKey link)
                        (gltLink\<lparr>pixiGraphics := Some (g\<lparr>lineColor := lineColor g, galpha := 6 / 10\<rparr>)\<rparr>)
                        (linksMap s)\<rparr>
               else s))"

text \<open>
  Lines 535-540 of \<^verbatim>\<open>initializeLinkText\<close>: two line feeds after the label of the first
  link of a pair, before the label of the second.
\<close>

definition decorate :: "LinkPair \<Rightarrow> string \<Rightarrow> string" where
  "decorate p linkString =
     (case p of
        First \<Rightarrow> linkString @ [CHR 0x0A, CHR 0x0A]
      | Second \<Rightarrow> [CHR 0x0A, CHR 0x0A] @ linkString
      | PairNone \<Rightarrow> linkString)"

definition initializeLinkText ::
  "resolver \<Rightarrow> ObsidianLink \<Rightarrow> LinkPair \<Rightarrow> LinkManager \<Rightarrow> PixiText option \<times> LinkManager" where
  "initializeLinkText resolve link pairStatus' s =
     (case resolve (node_id (source link)) (node_id (target link)) of
        None \<Rightarrow> (None, s)
      | Some k \<Rightarrow>
          (let linkString = (if node_id (source link) = node_id (target link) then [] else k);
               linkString = decorate pairStatus' linkString;
               (i, s1) = newObject s;
               t = \<lparr>tid = i, ttext = linkString, talpha = 1\<rparr>;
               s2 = updateLinkText link False s1;
               s3 = addChild i s2
           in (Some t, s3)))"

text \<open>
  The allocator half of \<^verbatim>\<open>initializeLinkGraphics\<close> (lines 589-647): the colour for a label,
  with a new legend row on first use.
\<close>

definition acquire :: "bool \<Rightarrow> string \<Rightarrow> LinkManager \<Rightarrow> int option \<times> LinkManager" where
  "acquire tagLegend linkString s =
     (case map_of (tagColors s) linkString of
        None \<Rightarrow>
          (let c = paletteAt (currentTagColorIndex s);
               s1 = s\<lparr>currentTagColorIndex :=
                        (currentTagColorIndex s + 1) smod int (length categoricalColors)\<rparr>;
               (ti, s2) = newObject s1;
               s3 = addChild ti s2;
               (gi, s4) = newObject s3;
               s5 = addChild gi s4;
               s6 = s5\<lparr>yOffset := yOffset s5 + lineHeight\<rparr>;
               a = (if tagLegend then 1 else 0);
               newLegendGraphic =
                 \<lparr>color = c,
                  legendText = \<lparr>tid = ti, ttext = linkString, talpha = a\<rparr>,
                  legendGraphics = \<lparr>gid = gi, lineColor = c, galpha = a\<rparr>,
                  nUsing = 0\<rparr>
           in (c, s6\<lparr>tagColors := AList.update linkString newLegendGraphic (tagColors s6)\<rparr>))
      | Some legendGraphic \<Rightarrow>
          (color legendGraphic,
           s\<lparr>tagColors := AList.update linkString
                (legendGraphic\<lparr>nUsing := nUsing legendGraphic + 1\<rparr>) (tagColors s)\<rparr>))"

definition initializeLinkGraphics ::
  "resolver \<Rightarrow> ObsidianLink \<Rightarrow> bool \<Rightarrow> LinkManager \<Rightarrow> PixiGraphics option \<times> LinkManager" where
  "initializeLinkGraphics resolve link tagLegend s =
     (case resolve (node_id (source link)) (node_id (target link)) of
        None \<Rightarrow> (None, s)
      | Some k \<Rightarrow>
          (let (c, s1) = (if node_id (source link) = node_id (target link) then (None, s)
                          else acquire tagLegend k s);
               (gi, s2) = newObject s1;
               graphics = \<lparr>gid = gi, lineColor = c, galpha = 1\<rparr>;
               s3 = addChild gi s2;
               s4 = updateLinkGraphics link s3
           in (Some graphics, s4)))"

definition addLink ::
  "resolver \<Rightarrow> ObsidianLink \<Rightarrow> bool \<Rightarrow> bool \<Rightarrow> LinkManager \<Rightarrow> LinkManager" where
  "addLink resolve obLink tagColorsOn tagLegend s =
     (let key = linkKey obLink;
          reverseKey = linkReverseKey obLink;
          proper = (node_id (source obLink) \<noteq> node_id (target obLink));
          pairStatus' = (if proper \<and> map_of (linksMap s) reverseKey \<noteq> None
                         then Second else PairNone);
          (t, s1) = initializeLinkText resolve obLink pairStatus' s;
          (g, s2) = (if tagColorsOn then initializeLinkGraphics resolve obLink tagLegend s1
                     else (None, s1));
          newLink = \<lparr>obsidianLink = obLink, pairStatus = pairStatus',
                     pixiText = t, pixiGraphics = g\<rparr>;
          s3 = s2\<lparr>linksMap := AList.update key newLink (linksMap s2)\<rparr>
      in if proper then
           (case map_of (linksMap s3) reverseKey of
              None \<Rightarrow> s3
            | Some reverseLink \<Rightarrow>
                s3\<lparr>linksMap := AList.update reverseKey
                      (reverseLink\<lparr>pairStatus := First\<rparr>) (linksMap s3)\<rparr>)
         else s3)"

text \<open>
  \<^verbatim>\<open>text.replace(/\r?\n/g, "")\<close>: scanning from the left, a line feed is dropped, together
  with a carriage return directly before it.
\<close>

fun stripNewlines :: "string \<Rightarrow> string" where
  "stripNewlines [] = []"
| "stripNewlines [c] = (if c = CHR 0x0A then [] else [c])"
| "stripNewlines (c # d # cs) =
     (if c = CHR 0x0D \<and> d = CHR 0x0A then stripNewlines cs
      else if c = CHR 0x0A then stripNewlines (d # cs)
      else c # stripNewlines (d # cs))"

text \<open>
  The allocator half of \<^verbatim>\<open>removeLink\<close> (lines 267-309). The argument is
  \<^verbatim>\<open>gltLink?.pixiText?.text\<close>, \<open>None\<close> for \<^verbatim>\<open>undefined\<close>.
\<close>

definition release :: "string option \<Rightarrow> LinkManager \<Rightarrow> LinkManager" where
  "release labelText s =
     (case map_option stripNewlines labelText of
        None \<Rightarrow> s
      | Some colorKey \<Rightarrow>
          if colorKey = [] then s
          else
            (case map_of (tagColors s) colorKey of
               None \<Rightarrow> s
             | Some legendGraphic \<Rightarrow>
                 (let lg = legendGraphic\<lparr>nUsing := nUsing legendGraphic - 1\<rparr> in
                  if nUsing lg < 1 then
                    (let s1 = s\<lparr>yOffset := yOffset s - lineHeight\<rparr>;
                         i = currentTagColorIndex s1 - 1;
                         s2 = s1\<lparr>currentTagColorIndex :=
                                  (if i < 0 then int (length categoricalColors) - 1 else i)\<rparr>;
                         s3 = removeIfAttached (tid (legendText lg)) s2;
                         s4 = removeIfAttached (gid (legendGraphics lg)) s3
                     in s4\<lparr>tagColors := AList.delete colorKey (tagColors s4)\<rparr>)
                  else s\<lparr>tagColors := AList.update colorKey lg (tagColors s)\<rparr>)))"

definition removeLink :: "ObsidianLink \<Rightarrow> LinkManager \<Rightarrow> LinkManager" where
  "removeLink link s =
     (let key = linkKey link;
          reverseKey = linkReverseKey link;
          gltLink = map_of (linksMap s) key;
          s1 = (case gltLink of
                  None \<Rightarrow> s
                | Some g \<Rightarrow> (case pixiText g of
                               None \<Rightarrow> s
                             | Some t \<Rightarrow> removeIfAttached (tid t) s));
          s2 = (case gltLink of
                  None \<Rightarrow> s1
                | Some g \<Rightarrow> (case pixiGraphics g of
                               None \<Rightarrow> s1
                             | Some gr \<Rightarrow> removeIfAttached (gid gr) s1));
          labelText = (case gltLink of
                         None \<Rightarrow> None
                       | Some g \<Rightarrow> map_option ttext (pixiText g));
          s3 = release labelText s2;
          s4 = s3\<lparr>linksMap := AList.delete key (linksMap s3)\<rparr>
      in case map_of (linksMap s4) reverseKey of
           None \<Rightarrow> s4
         | Some reverseLink \<Rightarrow>
             if pairStatus reverseLink \<noteq> PairNone
             then s4\<lparr>linksMap := AList.update reverseKey
                        (reverseLink\<lparr>pairStatus := PairNone\<rparr>) (linksMap s4)\<rparr>
             else s4)"

text \<open>
  \<^verbatim>\<open>Map.forEach\<close> visits the keys in insertion order and skips a key deleted before its
  turn. The callbacks below delete keys and never add one, so the loop runs over the keys
  present at its start and looks each one up again when its turn comes.
\<close>

fun forEachKey :: "(string \<Rightarrow> LinkManager \<Rightarrow> LinkManager) \<Rightarrow> string list \<Rightarrow> LinkManager \<Rightarrow> LinkManager" where
  "forEachKey f [] s = s"
| "forEachKey f (k # ks) s = forEachKey f ks (f k s)"

definition removeLinksStep :: "string list \<Rightarrow> string \<Rightarrow> LinkManager \<Rightarrow> LinkManager" where
  "removeLinksStep currentKeys key s =
     (if key \<notin> set currentKeys then
        (case map_of (linksMap s) key of
           None \<Rightarrow> s
         | Some link \<Rightarrow> removeLink (obsidianLink link) s)
      else s)"

definition removeLinks :: "ObsidianLink list \<Rightarrow> LinkManager \<Rightarrow> LinkManager" where
  "removeLinks currentLinks s =
     forEachKey (removeLinksStep (map linkKey currentLinks)) (map fst (linksMap s)) s"

definition destroyMapStep :: "string \<Rightarrow> LinkManager \<Rightarrow> LinkManager" where
  "destroyMapStep key s =
     (case map_of (linksMap s) key of
        None \<Rightarrow> s
      | Some gltLink \<Rightarrow> removeLink (obsidianLink gltLink) s)"

definition destroyMap :: "LinkManager \<Rightarrow> LinkManager" where
  "destroyMap s =
     (if length (linksMap s) > 0 then forEachKey destroyMapStep (map fst (linksMap s)) s
      else s)"

definition getLinkPairStatus :: "string \<Rightarrow> LinkManager \<Rightarrow> LinkPair" where
  "getLinkPairStatus key s =
     (case map_of (linksMap s) key of None \<Rightarrow> PairNone | Some link \<Rightarrow> pairStatus link)"

section \<open>The update loop (src/main.ts)\<close>

record GraphLinkTypesPluginSettings =
  set_tagColors :: bool
  set_tagNames :: bool
  set_tagLegend :: bool

text \<open>The calls \<^verbatim>\<open>updatePositions\<close> itself makes on the link manager, in order.\<close>

datatype event =
  EvRemoveLinks
  | EvAddLink ObsidianLink
  | EvUpdateLinkText ObsidianLink
  | EvUpdateLinkGraphics ObsidianLink

fun updatePositionsLoop ::
  "resolver \<Rightarrow> GraphLinkTypesPluginSettings \<Rightarrow> bool \<Rightarrow> ObsidianLink list \<Rightarrow>
   LinkManager \<times> event list \<Rightarrow> LinkManager \<times> event list" where
  "updatePositionsLoop resolve st updateMap [] acc = acc"
| "updatePositionsLoop resolve st updateMap (link # links) (s, evs) =
     (let (s1, evs1) =
            (if updateMap \<and> map_of (linksMap s) (linkKey link) = None
             then (addLink resolve link (set_tagColors st) (set_tagLegend st) s,
                   evs @ [EvAddLink link])
             else (s, evs));
          s2 = updateLinkText link (set_tagNames st) s1;
          evs2 = evs1 @ [EvUpdateLinkText link];
          (s3, evs3) =
            (if set_tagColors st
             then (updateLinkGraphics link s2, evs2 @ [EvUpdateLinkGraphics link])
             else (s2, evs2))
      in updatePositionsLoop resolve st updateMap links (s3, evs3))"

text \<open>
  One tick. \<open>hasRenderer\<close> is \<^verbatim>\<open>this.currentRenderer\<close> being set, \<open>animationFrameId\<close> the
  id the previous \<^verbatim>\<open>requestAnimationFrame\<close> returned (\<open>None\<close> for \<^verbatim>\<open>null\<close>), \<open>links\<close> is
  \<^verbatim>\<open>renderer.links\<close>.
\<close>

definition updatePositions ::
  "resolver \<Rightarrow> GraphLinkTypesPluginSettings \<Rightarrow> bool \<Rightarrow> nat option \<Rightarrow> ObsidianLink list \<Rightarrow>
   LinkManager \<Rightarrow> LinkManager \<times> event list" where
  "updatePositions resolve st hasRenderer animationFrameId links s =
     (if \<not> hasRenderer then (s, [])
      else
        (let updateMap = (case animationFrameId of
                            None \<Rightarrow> False
                          | Some n \<Rightarrow> n \<noteq> 0 \<and> n mod 10 = 0);
             (s1, evs1) = (if updateMap then (removeLinks links s, [EvRemoveLinks])
                           else (s, []))
         in updatePositionsLoop resolve st updateMap links (s1, evs1)))"

section \<open>Runs, invariants and observations\<close>

text \<open>
  A run of the link manager: any sequence of calls of its public operations, each with its
  own arguments (the classification lookup may answer differently from call to call),
  starting from the constructor's state.
\<close>

datatype op =
  OpAddLink resolver ObsidianLink bool bool
  | OpRemoveLink ObsidianLink
  | OpRemoveLinks "ObsidianLink list"
  | OpDestroyMap
  | OpUpdateLinkText ObsidianLink bool
  | OpUpdateLinkGraphics ObsidianLink

fun step :: "op \<Rightarrow> LinkManager \<Rightarrow> LinkManager" where
  "step (OpAddLink resolve link tagColorsOn tagLegend) s = addLink resolve link tagColorsOn tagLegend s"
| "step (OpRemoveLink link) s = removeLink link s"
| "step (OpRemoveLinks links) s = removeLinks links s"
| "step OpDestroyMap s = destroyMap s"
| "step (OpUpdateLinkText link tagNames) s = updateLinkText link tagNames s"
| "step (OpUpdateLinkGraphics link) s = updateLinkGraphics link s"

fun run :: "op list \<Rightarrow> LinkManager \<Rightarrow> LinkManager" where
  "run [] s = s"
| "run (x # xs) s = run xs (step x s)"

text \<open>The node ids of the edges a call adds or removes by name.\<close>

definition linkIds :: "ObsidianLink \<Rightarrow> string set" where
  "linkIds link = {node_id (source link), node_id (target link)}"

fun opIds :: "op \<Rightarrow> string set" where
  "opIds (OpAddLink resolve link tagColorsOn tagLegend) = linkIds link"
| "opIds (OpRemoveLink link) = linkIds link"
| "opIds (OpRemoveLinks links) = {}"
| "opIds OpDestroyMap = {}"
| "opIds (OpUpdateLinkText link tagNames) = {}"
| "opIds (OpUpdateLinkGraphics link) = {}"

text \<open>The key function is injective on the ordered pairs of ids of \<open>U\<close>.\<close>

definition keyInj :: "string set \<Rightarrow> bool" where
  "keyInj U = (\<forall>a\<in>U. \<forall>b\<in>U. \<forall>c\<in>U. \<forall>d\<in>U.
                 generateKey a b = generateKey c d \<longrightarrow> a = c \<and> b = d)"

text \<open>The tracked keys, and what the pairing logic reads of each entry.\<close>

definition trackedKeys :: "LinkManager \<Rightarrow> string set" where
  "trackedKeys s = fst ` set (linksMap s)"

definition pairView :: "LinkManager \<Rightarrow> string \<Rightarrow> (ObsidianLink \<times> LinkPair) option" where
  "pairView s k = map_option (\<lambda>e. (obsidianLink e, pairStatus e)) (map_of (linksMap s) k)"

definition statusAt :: "LinkManager \<Rightarrow> string \<Rightarrow> LinkPair option" where
  "statusAt s k = map_option pairStatus (map_of (linksMap s) k)"

text \<open>The display objects an entry owns.\<close>

definition elemsOf :: "GltLink \<Rightarrow> elem set" where
  "elemsOf e = (case pixiText e of None \<Rightarrow> {} | Some t \<Rightarrow> {tid t}) \<union>
               (case pixiGraphics e of None \<Rightarrow> {} | Some g \<Rightarrow> {gid g})"

text \<open>Every entry is stored under the key of its own edge.\<close>

definition keysConsistent :: "LinkManager \<Rightarrow> bool" where
  "keysConsistent s = (\<forall>k l p. pairView s k = Some (l, p) \<longrightarrow> linkKey l = k)"

definition idsWithin :: "string set \<Rightarrow> LinkManager \<Rightarrow> bool" where
  "idsWithin U s = (\<forall>k l p. pairView s k = Some (l, p) \<longrightarrow> linkIds l \<subseteq> U)"

text \<open>An entry marked as half of a pair has the key of its mirror edge tracked.\<close>

definition pairsMirrored :: "LinkManager \<Rightarrow> bool" where
  "pairsMirrored s =
     (\<forall>k e. map_of (linksMap s) k = Some e \<and> pairStatus e \<noteq> PairNone
            \<longrightarrow> linkReverseKey (obsidianLink e) \<in> trackedKeys s)"

definition coherent :: "string set \<Rightarrow> LinkManager \<Rightarrow> bool" where
  "coherent U s = (keysConsistent s \<and> idsWithin U s \<and> pairsMirrored s)"

text \<open>No object is on the display list twice, and every object on it has been created.\<close>

definition stageOk :: "LinkManager \<Rightarrow> bool" where
  "stageOk s = (distinct (children s) \<and> (\<forall>c\<in>set (children s). c < nextObj s))"

definition cursorOk :: "LinkManager \<Rightarrow> bool" where
  "cursorOk s = (0 \<le> currentTagColorIndex s
                 \<and> currentTagColorIndex s < int (length categoricalColors))"

definition sane :: "LinkManager \<Rightarrow> bool" where
  "sane s = (keysConsistent s \<and> stageOk s \<and> cursorOk s)"


text \<open>Acquiring one label \<open>n\<close> times; releasing through the labels of the given entries.\<close>

fun acquireN :: "bool \<Rightarrow> string \<Rightarrow> nat \<Rightarrow> LinkManager \<Rightarrow> LinkManager" where
  "acquireN tagLegend linkString 0 s = s"
| "acquireN tagLegend linkString (Suc n) s =
     acquireN tagLegend linkString n (snd (acquire tagLegend linkString s))"

fun releaseAll :: "string \<Rightarrow> LinkPair list \<Rightarrow> LinkManager \<Rightarrow> LinkManager" where
  "releaseAll linkString [] s = s"
| "releaseAll linkString (p # ps) s =
     releaseAll linkString ps (release (Some (decorate p linkString)) s)"

text \<open>Observations on the calls of one tick.\<close>

fun isAddLink :: "event \<Rightarrow> bool" where
  "isAddLink (EvAddLink link) = True"
| "isAddLink e = False"

definition refreshCalls :: "GraphLinkTypesPluginSettings \<Rightarrow> ObsidianLink \<Rightarrow> event list" where
  "refreshCalls st link =
     EvUpdateLinkText link # (if set_tagColors st then [EvUpdateLinkGraphics link] else [])"

text \<open>Every \<^verbatim>\<open>addLink\<close> call is directly followed by \<^verbatim>\<open>updateLinkText\<close> for the same edge.\<close>

fun addsFollowed :: "event list \<Rightarrow> bool" where
  "addsFollowed [] = True"
| "addsFollowed (EvAddLink link # es) =
     (case es of
        EvUpdateLinkText link' # es' \<Rightarrow> link' = link \<and> addsFollowed es
      | _ \<Rightarrow> False)"
| "addsFollowed (e # es) = addsFollowed es"

text \<open>An edge between two ids, its endpoints carrying no label opacity.\<close>

definition edge :: "string \<Rightarrow> string \<Rightarrow> ObsidianLink" where
  "edge a b = \<lparr>source = \<lparr>node_id = a, text_alpha = None\<rparr>,
               target = \<lparr>node_id = b, text_alpha = None\<rparr>\<rparr>"

section \<open>Unfolding the operations on concrete inputs\<close>

lemmas eval_defs =
  addLink_def initializeLinkText_def initializeLinkGraphics_def acquire_def release_def
  removeLink_def updateLinkText_def updateLinkGraphics_def newObject_def addChild_def
  removeChild_def removeIfAttached_def linkKey_def linkReverseKey_def generateKey_def
  decorate_def paletteAt_def categoricalColors_def lineHeight_def initial_def edge_def
  labelAlpha_def falsy_def smod_int_alt_def Let_def

section \<open>The key function\<close>

text \<open>
  C9. \<^verbatim>\<open>generateKey\<close> is not injective: the distinct ordered pairs (a-b, c) and (a, b-c),
  whose ids contain the separator, get the same key a-b-c; adding both edges leaves a single
  entry in \<^verbatim>\<open>linksMap\<close>, the second having replaced the first.
\<close>

theorem generateKey_not_injective:
  "(''a-b'', ''c'') \<noteq> (''a'', ''b-c'')
   \<and> CHR ''-'' \<in> set ''a-b'' \<and> CHR ''-'' \<in> set ''b-c''
   \<and> generateKey ''a-b'' ''c'' = generateKey ''a'' ''b-c''
   \<and> map (\<lambda>(k, e). (k, obsidianLink e))
         (linksMap (addLink (\<lambda>a b. None) (edge ''a'' ''b-c'') False False
            (addLink (\<lambda>a b. None) (edge ''a-b'' ''c'') False False initial)))
       = [(''a-b-c'', edge ''a'' ''b-c'')]"
  by (simp add: eval_defs)

section \<open>The use counter of a legend entry\<close>

text \<open>
  C2. The claim: a new Legend Entry starts with use count 1 and no entry of the legend map
  ever has a use count below 1. The code creates the entry with \<^verbatim>\<open>nUsing: 0\<close>: after the
  first acquisition of a label, and after \<^verbatim>\<open>addLink\<close> of the first edge carrying it, the
  entry is in the legend map with count 0.
\<close>

theorem new_legend_entry_has_count_zero:
  "map_option nUsing (map_of (tagColors (snd (acquire True ''parent'' initial))) ''parent'')
     = Some 0
   \<and> map_option nUsing
         (map_of (tagColors (addLink (\<lambda>a b. Some ''parent'') (edge ''A'' ''B'') True True initial))
            ''parent'')
     = Some 0"
  by (simp add: eval_defs)

text \<open>
  What follows from the count starting at 0: with two edges carrying the same label, removing
  one of them already reclaims the legend row and rolls the palette index and the offset
  back, although the other edge still carries the label.
\<close>

lemma legend_reclaimed_while_in_use:
  "(let s = removeLink (edge ''A'' ''C'')
              (addLink (\<lambda>a b. Some ''parent'') (edge ''A'' ''C'') True True
                (addLink (\<lambda>a b. Some ''parent'') (edge ''A'' ''B'') True True initial))
    in tagColors s = [] \<and> currentTagColorIndex s = 0 \<and> yOffset s = 5
       \<and> map (\<lambda>(k, e). (k, map_option ttext (pixiText e))) (linksMap s)
           = [(''A-B'', Some ''parent'')])"
  by (simp add: eval_defs)

section \<open>Label opacity\<close>

text \<open>What \<^verbatim>\<open>updateLinkText\<close> does to a tracked edge whose label is on the display list.\<close>

lemma updateLinkText_attached:
  assumes "map_of (linksMap s) (linkKey link) = Some e" and "pixiText e = Some t"
    and "tid t \<in> set (children s)"
  shows "map_of (linksMap (updateLinkText link tagNames s)) (linkKey link)
           = Some (e\<lparr>pixiText := Some (t\<lparr>talpha := labelAlpha link tagNames\<rparr>)\<rparr>)"
  using assms by (simp add: updateLinkText_def update_conv')

lemma labelAlpha_hidden: "labelAlpha link False = 0"
  by (simp add: labelAlpha_def)

lemma labelAlpha_both_nonzero:
  "text_alpha (source link) = Some a \<Longrightarrow> text_alpha (target link) = Some b \<Longrightarrow> a \<noteq> 0 \<Longrightarrow> b \<noteq> 0
   \<Longrightarrow> labelAlpha link True = max a b"
  by (simp add: labelAlpha_def falsy_def)

lemma labelAlpha_missing:
  "text_alpha (source link) = None \<or> text_alpha (target link) = None
   \<Longrightarrow> labelAlpha link True = 9 / 10"
  by (auto simp: labelAlpha_def falsy_def split: option.splits)

lemma labelAlpha_zero:
  "text_alpha (source link) = Some 0 \<or> text_alpha (target link) = Some 0
   \<Longrightarrow> labelAlpha link True = 9 / 10"
  by (auto simp: labelAlpha_def falsy_def split: option.splits)

text \<open>
  C8. The claim: with labels visible the label's opacity is the greater of the two
  endpoints' label opacities, and 0.9 when an endpoint's opacity is unavailable. The code
  tests \<^verbatim>\<open>!link.source.text.alpha\<close>, which also holds for an opacity that is present and 0:
  for a tracked edge with an attached label whose endpoints have the opacities 0 and 0.5,
  the label gets 0.9 and not 0.5.
\<close>

theorem label_opacity_with_zero_endpoint:
  "map_option (map_option talpha \<circ> pixiText)
     (map_of (linksMap (updateLinkText
        \<lparr>source = \<lparr>node_id = ''A'', text_alpha = Some 0\<rparr>,
         target = \<lparr>node_id = ''B'', text_alpha = Some (1 / 2)\<rparr>\<rparr> True
        (addLink (\<lambda>a b. Some ''parent'') (edge ''A'' ''B'') False False initial))) ''A-B'')
     = Some (Some (9 / 10))
   \<and> max (0::real) (1 / 2) = 1 / 2"
  by (simp add: eval_defs)

section \<open>Effects of the operations on the tracked map\<close>

lemma trackedKeys_dom: "trackedKeys s = dom (map_of (linksMap s))"
  by (simp add: trackedKeys_def dom_map_of_conv_image_fst)

lemma trackedKeys_pairView: "trackedKeys s = dom (pairView s)"
  by (auto simp: trackedKeys_dom pairView_def dom_def)

lemma pairView_None: "pairView s k = None \<longleftrightarrow> map_of (linksMap s) k = None"
  by (simp add: pairView_def)

lemma updateLinkText_frame [simp]:
  "tagColors (updateLinkText l b s) = tagColors s"
  "currentTagColorIndex (updateLinkText l b s) = currentTagColorIndex s"
  "yOffset (updateLinkText l b s) = yOffset s"
  "children (updateLinkText l b s) = children s"
  "nextObj (updateLinkText l b s) = nextObj s"
  by (simp_all add: updateLinkText_def split: option.splits)

lemma updateLinkGraphics_frame [simp]:
  "tagColors (updateLinkGraphics l s) = tagColors s"
  "currentTagColorIndex (updateLinkGraphics l s) = currentTagColorIndex s"
  "yOffset (updateLinkGraphics l s) = yOffset s"
  "children (updateLinkGraphics l s) = children s"
  "nextObj (updateLinkGraphics l s) = nextObj s"
  by (simp_all add: updateLinkGraphics_def split: option.splits)

lemma map_of_updateLinkText_other:
  "k \<noteq> linkKey l \<Longrightarrow> map_of (linksMap (updateLinkText l b s)) k = map_of (linksMap s) k"
  by (simp add: updateLinkText_def update_conv' split: option.splits)

lemma map_of_updateLinkGraphics_other:
  "k \<noteq> linkKey l \<Longrightarrow> map_of (linksMap (updateLinkGraphics l s)) k = map_of (linksMap s) k"
  by (simp add: updateLinkGraphics_def update_conv' split: option.splits)

lemma pairView_updateLinkText [simp]: "pairView (updateLinkText l b s) = pairView s"
  by (rule ext) (auto simp: pairView_def updateLinkText_def update_conv' split: option.splits)

lemma pairView_updateLinkGraphics [simp]: "pairView (updateLinkGraphics l s) = pairView s"
  by (rule ext) (auto simp: pairView_def updateLinkGraphics_def update_conv' split: option.splits)

lemma elems_updateLinkText [simp]:
  "map_option elemsOf (map_of (linksMap (updateLinkText l b s)) k)
     = map_option elemsOf (map_of (linksMap s) k)"
  by (auto simp: elemsOf_def updateLinkText_def update_conv' split: option.splits)

lemma elems_updateLinkGraphics [simp]:
  "map_option elemsOf (map_of (linksMap (updateLinkGraphics l s)) k)
     = map_option elemsOf (map_of (linksMap s) k)"
  by (auto simp: elemsOf_def updateLinkGraphics_def update_conv' split: option.splits)

lemma removeIfAttached_frame [simp]:
  "linksMap (removeIfAttached c s) = linksMap s"
  "tagColors (removeIfAttached c s) = tagColors s"
  "currentTagColorIndex (removeIfAttached c s) = currentTagColorIndex s"
  "yOffset (removeIfAttached c s) = yOffset s"
  "nextObj (removeIfAttached c s) = nextObj s"
  by (simp_all add: removeIfAttached_def removeChild_def)

lemma children_removeIfAttached [simp]:
  "children (removeIfAttached c s) = remove1 c (children s)"
  by (simp add: removeIfAttached_def removeChild_def remove1_idem)

lemma release_frame [simp]:
  "linksMap (release x s) = linksMap s"
  "nextObj (release x s) = nextObj s"
  by (simp_all add: release_def Let_def split: option.splits)

lemma acquire_frame [simp]:
  "linksMap (snd (acquire lg k s)) = linksMap s"
  by (simp add: acquire_def Let_def newObject_def addChild_def split: option.splits)

lemma initializeLinkText_frame [simp]:
  "tagColors (snd (initializeLinkText r l p s)) = tagColors s"
  "currentTagColorIndex (snd (initializeLinkText r l p s)) = currentTagColorIndex s"
  "yOffset (snd (initializeLinkText r l p s)) = yOffset s"
  by (simp_all add: initializeLinkText_def Let_def newObject_def addChild_def split: option.splits)

lemma pairView_cong: "linksMap s' = linksMap s \<Longrightarrow> pairView s' = pairView s"
  by (rule ext) (simp add: pairView_def)

lemma initializeLinkText_None:
  "r (node_id (source l)) (node_id (target l)) = None \<Longrightarrow> initializeLinkText r l p s = (None, s)"
  by (simp add: initializeLinkText_def)

lemma initializeLinkText_Some:
  "r (node_id (source l)) (node_id (target l)) = Some k \<Longrightarrow>
   initializeLinkText r l p s =
     (Some \<lparr>tid = nextObj s,
            ttext = decorate p (if node_id (source l) = node_id (target l) then [] else k),
            talpha = 1\<rparr>,
      addChild (nextObj s) (updateLinkText l False (s\<lparr>nextObj := Suc (nextObj s)\<rparr>)))"
  by (simp add: initializeLinkText_def Let_def newObject_def)

lemma initializeLinkGraphics_None:
  "r (node_id (source l)) (node_id (target l)) = None \<Longrightarrow> initializeLinkGraphics r l lg s = (None, s)"
  by (simp add: initializeLinkGraphics_def)

lemma initializeLinkGraphics_Some:
  "r (node_id (source l)) (node_id (target l)) = Some k \<Longrightarrow>
   initializeLinkGraphics r l lg s =
     (let cs = (if node_id (source l) = node_id (target l) then (None, s) else acquire lg k s);
          s1 = snd cs
      in (Some \<lparr>gid = nextObj s1, lineColor = fst cs, galpha = 1\<rparr>,
          updateLinkGraphics l (addChild (nextObj s1) (s1\<lparr>nextObj := Suc (nextObj s1)\<rparr>))))"
  by (simp add: initializeLinkGraphics_def Let_def newObject_def split: prod.splits)

lemma addChild_frame [simp]:
  "linksMap (addChild c s) = linksMap s"
  "tagColors (addChild c s) = tagColors s"
  "currentTagColorIndex (addChild c s) = currentTagColorIndex s"
  "yOffset (addChild c s) = yOffset s"
  "nextObj (addChild c s) = nextObj s"
  "children (addChild c s) = children s @ [c]"
  by (simp_all add: addChild_def)

lemma pairView_addChild [simp]: "pairView (addChild c s) = pairView s"
  by (rule pairView_cong) simp

lemma pairView_nextObj [simp]: "pairView (s\<lparr>nextObj := n\<rparr>) = pairView s"
  by (rule pairView_cong) simp

lemma pairView_acquire [simp]: "pairView (snd (acquire lg k s)) = pairView s"
  by (rule pairView_cong) simp

lemma pairView_release [simp]: "pairView (release x s) = pairView s"
  by (rule pairView_cong) simp

lemma pairView_removeIfAttached [simp]: "pairView (removeIfAttached c s) = pairView s"
  by (rule pairView_cong) simp

lemma pairView_initializeLinkText [simp]:
  "pairView (snd (initializeLinkText r l p s)) = pairView s"
  by (cases "r (node_id (source l)) (node_id (target l))")
     (simp_all add: initializeLinkText_None initializeLinkText_Some)

lemma pairView_initializeLinkGraphics [simp]:
  "pairView (snd (initializeLinkGraphics r l lg s)) = pairView s"
  by (cases "r (node_id (source l)) (node_id (target l))")
     (simp_all add: initializeLinkGraphics_None initializeLinkGraphics_Some Let_def)

lemma pairView_update:
  "pairView (s\<lparr>linksMap := AList.update k v (linksMap s)\<rparr>)
     = (pairView s)(k \<mapsto> (obsidianLink v, pairStatus v))"
  by (rule ext) (simp add: pairView_def update_conv')

lemma pairView_delete:
  "pairView (s\<lparr>linksMap := AList.delete k (linksMap s)\<rparr>) = (pairView s)(k := None)"
  by (rule ext) (simp add: pairView_def delete_conv')

lemma pairView_set_status:
  "pairView (case map_of (linksMap s) k of
               None \<Rightarrow> s
             | Some e \<Rightarrow> s\<lparr>linksMap := AList.update k (e\<lparr>pairStatus := p\<rparr>) (linksMap s)\<rparr>)
     = (case pairView s k of
          None \<Rightarrow> pairView s
        | Some lp \<Rightarrow> (pairView s)(k \<mapsto> (fst lp, p)))"
  by (cases "map_of (linksMap s) k") (simp_all add: pairView_update, simp_all add: pairView_def)

lemma addLink_alt:
  "addLink r l tc lg s =
     (let proper = (node_id (source l) \<noteq> node_id (target l));
          ps = (if proper \<and> map_of (linksMap s) (linkReverseKey l) \<noteq> None
                then Second else PairNone);
          ts = initializeLinkText r l ps s;
          gs = (if tc then initializeLinkGraphics r l lg (snd ts) else (None, snd ts));
          s3 = (snd gs)\<lparr>linksMap := AList.update (linkKey l)
                  \<lparr>obsidianLink = l, pairStatus = ps, pixiText = fst ts, pixiGraphics = fst gs\<rparr>
                  (linksMap (snd gs))\<rparr>
      in if proper then
           (case map_of (linksMap s3) (linkReverseKey l) of
              None \<Rightarrow> s3
            | Some e \<Rightarrow> s3\<lparr>linksMap := AList.update (linkReverseKey l)
                                (e\<lparr>pairStatus := First\<rparr>) (linksMap s3)\<rparr>)
         else s3)"
  by (simp only: addLink_def Let_def case_prod_beta)

lemma pairView_addLink:
  "pairView (addLink r l tc lg s) =
     (let proper = (node_id (source l) \<noteq> node_id (target l));
          ps = (if proper \<and> pairView s (linkReverseKey l) \<noteq> None then Second else PairNone);
          v1 = (pairView s)(linkKey l \<mapsto> (l, ps))
      in if proper then
           (case v1 (linkReverseKey l) of
              None \<Rightarrow> v1
            | Some lp \<Rightarrow> v1(linkReverseKey l \<mapsto> (fst lp, First)))
         else v1)"
proof -
  define proper where "proper = (node_id (source l) \<noteq> node_id (target l))"
  define ps where "ps = (if proper \<and> map_of (linksMap s) (linkReverseKey l) \<noteq> None
                         then Second else PairNone)"
  define ts where "ts = initializeLinkText r l ps s"
  define gs where "gs = (if tc then initializeLinkGraphics r l lg (snd ts) else (None, snd ts))"
  define s3 where "s3 = (snd gs)\<lparr>linksMap := AList.update (linkKey l)
                  \<lparr>obsidianLink = l, pairStatus = ps, pixiText = fst ts, pixiGraphics = fst gs\<rparr>
                  (linksMap (snd gs))\<rparr>"
  have gsv: "pairView (snd gs) = pairView s"
    by (simp add: gs_def ts_def)
  have v3: "pairView s3 = (pairView s)(linkKey l \<mapsto> (l, ps))"
    unfolding s3_def pairView_update gsv by simp
  have ps': "ps = (if proper \<and> pairView s (linkReverseKey l) \<noteq> None then Second else PairNone)"
    by (simp add: ps_def pairView_None)
  have "addLink r l tc lg s =
          (if proper then
             (case map_of (linksMap s3) (linkReverseKey l) of
                None \<Rightarrow> s3
              | Some e \<Rightarrow> s3\<lparr>linksMap := AList.update (linkReverseKey l)
                                (e\<lparr>pairStatus := First\<rparr>) (linksMap s3)\<rparr>)
           else s3)"
    unfolding addLink_alt Let_def s3_def gs_def ts_def ps_def proper_def ..
  then have "pairView (addLink r l tc lg s) =
          (if proper then
             (case pairView s3 (linkReverseKey l) of
                None \<Rightarrow> pairView s3
              | Some lp \<Rightarrow> (pairView s3)(linkReverseKey l \<mapsto> (fst lp, First)))
           else pairView s3)"
    by (simp only: pairView_set_status if_distrib [of pairView])
  then show ?thesis
    unfolding v3 ps' Let_def proper_def .
qed

lemma pairView_removeLink:
  "pairView (removeLink l s) =
     (let v1 = (pairView s)(linkKey l := None)
      in case v1 (linkReverseKey l) of
           None \<Rightarrow> v1
         | Some lp \<Rightarrow> v1(linkReverseKey l \<mapsto> (fst lp, PairNone)))"
proof -
  define g where "g = map_of (linksMap s) (linkKey l)"
  define s1 where "s1 = (case g of None \<Rightarrow> s
                | Some e \<Rightarrow> (case pixiText e of None \<Rightarrow> s
                             | Some t \<Rightarrow> removeIfAttached (tid t) s))"
  define s2 where "s2 = (case g of None \<Rightarrow> s1
                | Some e \<Rightarrow> (case pixiGraphics e of None \<Rightarrow> s1
                             | Some gr \<Rightarrow> removeIfAttached (gid gr) s1))"
  define s3 where "s3 = release (case g of None \<Rightarrow> None | Some e \<Rightarrow> map_option ttext (pixiText e)) s2"
  define s4 where "s4 = s3\<lparr>linksMap := AList.delete (linkKey l) (linksMap s3)\<rparr>"
  have "pairView s1 = pairView s"
    by (simp add: s1_def split: option.splits)
  then have "pairView s2 = pairView s"
    by (simp add: s2_def split: option.splits)
  then have "pairView s3 = pairView s"
    by (simp add: s3_def)
  then have v4: "pairView s4 = (pairView s)(linkKey l := None)"
    by (simp add: s4_def pairView_delete)
  have "removeLink l s =
          (case map_of (linksMap s4) (linkReverseKey l) of
             None \<Rightarrow> s4
           | Some e \<Rightarrow> if pairStatus e \<noteq> PairNone
               then s4\<lparr>linksMap := AList.update (linkReverseKey l)
                             (e\<lparr>pairStatus := PairNone\<rparr>) (linksMap s4)\<rparr> else s4)"
    unfolding removeLink_def Let_def s4_def s3_def s2_def s1_def g_def ..
  also have "pairView \<dots> = (case pairView s4 (linkReverseKey l) of
           None \<Rightarrow> pairView s4
         | Some lp \<Rightarrow> (pairView s4)(linkReverseKey l \<mapsto> (fst lp, PairNone)))"
    by (cases "map_of (linksMap s4) (linkReverseKey l)")
       (auto simp: pairView_update, auto simp: pairView_def fun_eq_iff)
  finally show ?thesis
    unfolding v4 Let_def .
qed

lemma status_pairView:
  "map_option snd (pairView s k) = map_option pairStatus (map_of (linksMap s) k)"
  by (simp add: pairView_def option.map_comp comp_def)

lemma pairsMirrored_view:
  "pairsMirrored s \<longleftrightarrow>
     (\<forall>k l p. pairView s k = Some (l, p) \<and> p \<noteq> PairNone \<longrightarrow> linkReverseKey l \<in> dom (pairView s))"
  unfolding pairsMirrored_def trackedKeys_pairView
  by (auto simp: pairView_def dom_def) blast

lemma keyInj_mirror:
  assumes "keyInj U" "linkIds l \<subseteq> U" "linkIds l' \<subseteq> U"
  shows "linkKey l' = linkReverseKey l \<longleftrightarrow> linkReverseKey l' = linkKey l"
  using assms unfolding keyInj_def linkIds_def linkKey_def linkReverseKey_def
  by (metis insert_subset)

lemma coherent_initial: "coherent U initial"
  by (simp add: coherent_def keysConsistent_def idsWithin_def pairsMirrored_def pairView_def
      initial_def)

lemma coherent_addLink:
  assumes inj: "keyInj U" and ids: "linkIds l \<subseteq> U" and coh: "coherent U s"
  shows "coherent U (addLink r l tc lg s)"
proof -
  let ?v = "pairView s" and ?v' = "pairView (addLink r l tc lg s)"
  from coh have kc: "\<And>k m p. ?v k = Some (m, p) \<Longrightarrow> linkKey m = k"
    and iw: "\<And>k m p. ?v k = Some (m, p) \<Longrightarrow> linkIds m \<subseteq> U"
    and pm: "\<And>k m p. ?v k = Some (m, p) \<Longrightarrow> p \<noteq> PairNone \<Longrightarrow> linkReverseKey m \<in> dom ?v"
    unfolding coherent_def keysConsistent_def idsWithin_def pairsMirrored_view by blast+
  have entry: "\<And>k m p. ?v' k = Some (m, p) \<Longrightarrow>
                 (k = linkKey l \<and> m = l) \<or> (\<exists>q. ?v k = Some (m, q))"
    by (auto simp: pairView_addLink Let_def split: if_splits option.splits)
  have dom_sub: "dom ?v \<union> {linkKey l} \<subseteq> dom ?v'"
    by (auto simp: pairView_addLink Let_def split: if_splits option.splits)
  have status: "\<And>k m p. ?v' k = Some (m, p) \<Longrightarrow> p \<noteq> PairNone \<Longrightarrow>
                 (k = linkKey l \<and> m = l \<and> linkReverseKey l \<in> dom ?v)
                 \<or> (k = linkReverseKey l) \<or> ?v k = Some (m, p)"
    by (auto simp: pairView_addLink Let_def split: if_splits option.splits)
  have "keysConsistent (addLink r l tc lg s)"
    unfolding keysConsistent_def using entry kc by blast
  moreover have iw': "idsWithin U (addLink r l tc lg s)"
    unfolding idsWithin_def using entry iw ids by blast
  moreover have "pairsMirrored (addLink r l tc lg s)"
    unfolding pairsMirrored_view
  proof (intro allI impI, elim conjE)
    fix k m p assume a: "?v' k = Some (m, p)" and b: "p \<noteq> PairNone"
    from status [OF a b] consider
      "k = linkKey l" "m = l" "linkReverseKey l \<in> dom ?v"
      | "k = linkReverseKey l" | "?v k = Some (m, p)" by blast
    then show "linkReverseKey m \<in> dom ?v'"
    proof cases
      case 1 then show ?thesis using dom_sub by blast
    next
      case 2
      have "linkKey m = k" using \<open>keysConsistent (addLink r l tc lg s)\<close> a
        unfolding keysConsistent_def by blast
      moreover have "linkIds m \<subseteq> U" using iw' a unfolding idsWithin_def by blast
      ultimately have "linkReverseKey m = linkKey l"
        using keyInj_mirror [OF inj ids, of m] 2 by simp
      then show ?thesis using dom_sub by auto
    next
      case 3 then show ?thesis using pm [OF 3 b] dom_sub by blast
    qed
  qed
  ultimately show ?thesis by (simp add: coherent_def)
qed

lemma coherent_removeLink:
  assumes inj: "keyInj U" and ids: "linkIds l \<subseteq> U" and coh: "coherent U s"
  shows "coherent U (removeLink l s)"
proof -
  let ?v = "pairView s" and ?v' = "pairView (removeLink l s)"
  from coh have kc: "\<And>k m p. ?v k = Some (m, p) \<Longrightarrow> linkKey m = k"
    and iw: "\<And>k m p. ?v k = Some (m, p) \<Longrightarrow> linkIds m \<subseteq> U"
    and pm: "\<And>k m p. ?v k = Some (m, p) \<Longrightarrow> p \<noteq> PairNone \<Longrightarrow> linkReverseKey m \<in> dom ?v"
    unfolding coherent_def keysConsistent_def idsWithin_def pairsMirrored_view by blast+
  have entry: "\<And>k m p. ?v' k = Some (m, p) \<Longrightarrow> k \<noteq> linkKey l \<and> (\<exists>q. ?v k = Some (m, q))"
    by (auto simp: pairView_removeLink Let_def split: if_splits option.splits)
  have dom_eq: "dom ?v' = dom ?v - {linkKey l}"
    by (auto simp: pairView_removeLink Let_def split: if_splits option.splits)
  have status: "\<And>k m p. ?v' k = Some (m, p) \<Longrightarrow> p \<noteq> PairNone \<Longrightarrow>
                 k \<noteq> linkReverseKey l \<and> k \<noteq> linkKey l \<and> ?v k = Some (m, p)"
    by (auto simp: pairView_removeLink Let_def split: if_splits option.splits)
  have "keysConsistent (removeLink l s)"
    unfolding keysConsistent_def using entry kc by blast
  moreover have "idsWithin U (removeLink l s)"
    unfolding idsWithin_def using entry iw by blast
  moreover have "pairsMirrored (removeLink l s)"
    unfolding pairsMirrored_view
  proof (intro allI impI, elim conjE)
    fix k m p assume a: "?v' k = Some (m, p)" and b: "p \<noteq> PairNone"
    from status [OF a b] have k: "k \<noteq> linkReverseKey l" "k \<noteq> linkKey l" and v: "?v k = Some (m, p)"
      by simp_all
    have "linkKey m = k" using kc [OF v] .
    moreover have "linkIds m \<subseteq> U" using iw [OF v] .
    ultimately have "linkReverseKey m \<noteq> linkKey l"
      using keyInj_mirror [OF inj ids, of m] k by auto
    then show "linkReverseKey m \<in> dom ?v'"
      using pm [OF v b] dom_eq by auto
  qed
  ultimately show ?thesis by (simp add: coherent_def)
qed

lemma forEachKey_invariant:
  assumes "\<And>k s. P s \<Longrightarrow> P (f k s)" and "P s"
  shows "P (forEachKey f ks s)"
  using assms(2) by (induction ks arbitrary: s) (simp_all add: assms(1))

lemma coherent_stored_ids:
  "coherent U s \<Longrightarrow> map_of (linksMap s) k = Some e \<Longrightarrow> linkIds (obsidianLink e) \<subseteq> U"
  unfolding coherent_def idsWithin_def pairView_def by auto

lemma coherent_removeLinksStep:
  "keyInj U \<Longrightarrow> coherent U s \<Longrightarrow> coherent U (removeLinksStep cur k s)"
  by (auto simp: removeLinksStep_def coherent_removeLink coherent_stored_ids split: option.splits)

lemma coherent_destroyMapStep:
  "keyInj U \<Longrightarrow> coherent U s \<Longrightarrow> coherent U (destroyMapStep k s)"
  by (auto simp: destroyMapStep_def coherent_removeLink coherent_stored_ids split: option.splits)

lemma coherent_removeLinks:
  "keyInj U \<Longrightarrow> coherent U s \<Longrightarrow> coherent U (removeLinks links s)"
  unfolding removeLinks_def by (rule forEachKey_invariant) (simp_all add: coherent_removeLinksStep)

lemma coherent_destroyMap:
  "keyInj U \<Longrightarrow> coherent U s \<Longrightarrow> coherent U (destroyMap s)"
  unfolding destroyMap_def
  by (simp add: forEachKey_invariant [where P = "coherent U"] coherent_destroyMapStep)

lemma coherent_pairView_eq:
  "pairView s' = pairView s \<Longrightarrow> coherent U s \<Longrightarrow> coherent U s'"
  by (simp add: coherent_def keysConsistent_def idsWithin_def pairsMirrored_view)

lemma coherent_step:
  "keyInj U \<Longrightarrow> opIds x \<subseteq> U \<Longrightarrow> coherent U s \<Longrightarrow> coherent U (step x s)"
  by (cases x)
     (simp_all add: coherent_addLink coherent_removeLink coherent_removeLinks coherent_destroyMap
        coherent_pairView_eq [OF pairView_updateLinkText]
        coherent_pairView_eq [OF pairView_updateLinkGraphics])

lemma coherent_run:
  "keyInj U \<Longrightarrow> \<forall>x\<in>set ops. opIds x \<subseteq> U \<Longrightarrow> coherent U s \<Longrightarrow> coherent U (run ops s)"
  by (induction ops arbitrary: s) (simp_all add: coherent_step)


lemma trackedKeys_removeLink: "trackedKeys (removeLink l s) = trackedKeys s - {linkKey l}"
  unfolding trackedKeys_pairView
  by (auto simp: pairView_removeLink Let_def split: if_splits option.splits)

lemma trackedKeys_addLink: "trackedKeys (addLink r l tc lg s) = insert (linkKey l) (trackedKeys s)"
  unfolding trackedKeys_pairView
  by (auto simp: pairView_addLink Let_def split: if_splits option.splits)

section \<open>Mirror pairs\<close>

lemma statusAt_pairView: "statusAt s k = map_option snd (pairView s k)"
  by (simp add: statusAt_def status_pairView)

text \<open>
  C10, as stated, fails: after \<^verbatim>\<open>addLink\<close> of the edge (a-b, c) and then of the edge
  (b-c, a), the second finds its mirror key a-b-c tracked (it is the key of the first edge)
  and marks that entry First; the mirror of (a-b, c) has the key c-a-b, which is not tracked.
\<close>

theorem mirror_untracked_after_key_collision:
  "map (\<lambda>(k, e). (k, obsidianLink e, pairStatus e))
       (linksMap (run [OpAddLink (\<lambda>a b. None) (edge ''a-b'' ''c'') False False,
                       OpAddLink (\<lambda>a b. None) (edge ''b-c'' ''a'') False False] initial))
     = [(''a-b-c'', edge ''a-b'' ''c'', First), (''b-c-a'', edge ''b-c'' ''a'', Second)]
   \<and> linkReverseKey (edge ''a-b'' ''c'') = ''c-a-b''
   \<and> ''c-a-b'' \<notin> trackedKeys (run [OpAddLink (\<lambda>a b. None) (edge ''a-b'' ''c'') False False,
                            OpAddLink (\<lambda>a b. None) (edge ''b-c'' ''a'') False False] initial)"
  by (simp add: trackedKeys_def eval_defs)

text \<open>
  C10, amended: in every state reached from the constructor by \<^verbatim>\<open>addLink\<close>, \<^verbatim>\<open>removeLink\<close>,
  \<^verbatim>\<open>removeLinks\<close>, \<^verbatim>\<open>destroyMap\<close> (and the two refresh operations), where the edges added
  and removed by name have their node ids in a set on which the key function is injective,
  every tracked entry whose pair status is First or Second has the key of its mirror edge
  tracked.
\<close>

theorem pair_status_implies_mirror_tracked:
  assumes "keyInj U" and "\<forall>x\<in>set ops. opIds x \<subseteq> U"
  shows "pairsMirrored (run ops initial)"
  using coherent_run [OF assms coherent_initial] by (simp add: coherent_def)

theorem pair_status_implies_mirror_tracked_witness:
  "map (\<lambda>(k, e). (k, pairStatus e))
        (linksMap (run [OpAddLink (\<lambda>a b. Some ''parent'') (edge ''A'' ''B'') True True,
                        OpAddLink (\<lambda>a b. Some ''child'') (edge ''B'' ''A'') True True] initial))
       = [(''A-B'', First), (''B-A'', Second)]
   \<and> linkReverseKey (edge ''A'' ''B'')
       \<in> trackedKeys (run [OpAddLink (\<lambda>a b. Some ''parent'') (edge ''A'' ''B'') True True,
                            OpAddLink (\<lambda>a b. Some ''child'') (edge ''B'' ''A'') True True] initial)"
proof -
  let ?ops = "[OpAddLink (\<lambda>a b. Some ''parent'') (edge ''A'' ''B'') True True,
               OpAddLink (\<lambda>a b. Some ''child'') (edge ''B'' ''A'') True True]"
  have inj: "keyInj {''A'', ''B''}"
    by (simp add: keyInj_def generateKey_def)
  have ids: "\<forall>x\<in>set ?ops. opIds x \<subseteq> {''A'', ''B''}"
    by (simp add: linkIds_def edge_def)
  have st: "map (\<lambda>(k, e). (k, obsidianLink e, pairStatus e)) (linksMap (run ?ops initial))
       = [(''A-B'', edge ''A'' ''B'', First), (''B-A'', edge ''B'' ''A'', Second)]"
    by (simp add: eval_defs)
  then obtain e where e: "map_of (linksMap (run ?ops initial)) ''A-B'' = Some e"
    and "obsidianLink e = edge ''A'' ''B''" and "pairStatus e = First"
    by (cases "linksMap (run ?ops initial)") auto
  with pair_status_implies_mirror_tracked [OF inj ids]
  have "linkReverseKey (edge ''A'' ''B'') \<in> trackedKeys (run ?ops initial)"
    unfolding pairsMirrored_def by (metis LinkPair.distinct(1))
  moreover have "map (\<lambda>(k, e). (k, pairStatus e)) (linksMap (run ?ops initial))
       = [(''A-B'', First), (''B-A'', Second)]"
    by (simp add: eval_defs)
  ultimately show ?thesis by simp
qed

text \<open>
  C4, as stated, fails for the ids x-x and x: both directions have the key x-x-x, the first
  \<^verbatim>\<open>addLink\<close> already finds "its mirror" in the entry it has just stored, and after the
  second there is one entry, marked First, and none marked Second.
\<close>

theorem mirror_pair_with_colliding_keys:
  "''x-x'' \<noteq> ''x''
   \<and> map (\<lambda>(k, e). (k, obsidianLink e, pairStatus e))
        (linksMap (addLink (\<lambda>a b. None) (edge ''x'' ''x-x'') False False
           (addLink (\<lambda>a b. None) (edge ''x-x'' ''x'') False False initial)))
       = [(''x-x-x'', edge ''x'' ''x-x'', First)]"
  by (simp add: eval_defs)

text \<open>
  C4, amended: for two node ids A \<noteq> B whose two keys differ, after \<^verbatim>\<open>addLink\<close> of A\<rightarrow>B and
  then of B\<rightarrow>A (from any state, with any lookup results and settings) the entry of A\<rightarrow>B is
  First and the entry of B\<rightarrow>A is Second, these are the only two keys added and the status of
  every other key is as before; \<^verbatim>\<open>removeLink\<close> of either edge then untracks it and resets the
  other entry to None.
\<close>

theorem mirror_pair_status:
  assumes "node_id (source ba) = node_id (target ab)" and "node_id (target ba) = node_id (source ab)"
    and "node_id (source ab) \<noteq> node_id (target ab)" and "linkKey ab \<noteq> linkKey ba"
  shows "(let s2 = addLink r2 ba tc2 lg2 (addLink r1 ab tc1 lg1 s) in
            statusAt s2 (linkKey ab) = Some First \<and> statusAt s2 (linkKey ba) = Some Second
          \<and> trackedKeys s2 = insert (linkKey ab) (insert (linkKey ba) (trackedKeys s))
          \<and> (\<forall>k. k \<noteq> linkKey ab \<and> k \<noteq> linkKey ba \<longrightarrow> statusAt s2 k = statusAt s k)
          \<and> statusAt (removeLink ab s2) (linkKey ab) = None
          \<and> statusAt (removeLink ab s2) (linkKey ba) = Some PairNone
          \<and> statusAt (removeLink ba s2) (linkKey ba) = None
          \<and> statusAt (removeLink ba s2) (linkKey ab) = Some PairNone)"
proof -
  have r1: "linkReverseKey ab = linkKey ba" and r2: "linkReverseKey ba = linkKey ab"
    using assms by (simp_all add: linkKey_def linkReverseKey_def)
  have p: "node_id (source ba) \<noteq> node_id (target ba)"
    using assms by simp
  show ?thesis
    unfolding Let_def statusAt_pairView trackedKeys_addLink
    using assms(3,4) p
    by (auto simp: pairView_removeLink pairView_addLink Let_def r1 r2 split: option.splits)
qed

theorem mirror_pair_status_witness:
  "linkKey (edge ''A'' ''B'') \<noteq> linkKey (edge ''B'' ''A'')
   \<and> map (\<lambda>(k, e). (k, pairStatus e))
        (linksMap (addLink (\<lambda>a b. None) (edge ''B'' ''A'') False False
           (addLink (\<lambda>a b. None) (edge ''A'' ''B'') False False initial)))
       = [(''A-B'', First), (''B-A'', Second)]
   \<and> statusAt (removeLink (edge ''A'' ''B'')
        (addLink (\<lambda>a b. None) (edge ''B'' ''A'') False False
           (addLink (\<lambda>a b. None) (edge ''A'' ''B'') False False initial))) ''B-A'' = Some PairNone
   \<and> statusAt (removeLink (edge ''B'' ''A'')
        (addLink (\<lambda>a b. None) (edge ''B'' ''A'') False False
           (addLink (\<lambda>a b. None) (edge ''A'' ''B'') False False initial))) ''A-B'' = Some PairNone"
proof -
  have h: "node_id (source (edge ''B'' ''A'')) = node_id (target (edge ''A'' ''B''))"
    "node_id (target (edge ''B'' ''A'')) = node_id (source (edge ''A'' ''B''))"
    "node_id (source (edge ''A'' ''B'')) \<noteq> node_id (target (edge ''A'' ''B''))"
    "linkKey (edge ''A'' ''B'') \<noteq> linkKey (edge ''B'' ''A'')"
    by (simp_all add: edge_def linkKey_def generateKey_def)
  have k: "linkKey (edge ''A'' ''B'') = ''A-B''" "linkKey (edge ''B'' ''A'') = ''B-A''"
    by (simp_all add: edge_def linkKey_def generateKey_def)
  have st: "map (\<lambda>(k, e). (k, pairStatus e))
        (linksMap (addLink (\<lambda>a b. None) (edge ''B'' ''A'') False False
           (addLink (\<lambda>a b. None) (edge ''A'' ''B'') False False initial)))
       = [(''A-B'', First), (''B-A'', Second)]"
    by (simp add: eval_defs)
  show ?thesis
    using mirror_pair_status [OF h, of "\<lambda>a b. None" False False "\<lambda>a b. None" False False initial] h st
    unfolding Let_def k by simp
qed

section \<open>Removing an edge that is not tracked\<close>




section \<open>Self-loops\<close>




section \<open>Acquiring and releasing a legend slot\<close>

lemma stripNewlines_LF [simp]: "stripNewlines (CHR 0x0A # xs) = stripNewlines xs"
  by (cases xs) simp_all

lemma stripNewlines_id: "CHR 0x0A \<notin> set xs \<Longrightarrow> stripNewlines xs = xs"
  by (induction xs rule: stripNewlines.induct) auto

lemma stripNewlines_decorate:
  "CHR 0x0A \<notin> set xs \<Longrightarrow> p \<noteq> First \<Longrightarrow> stripNewlines (decorate p xs) = xs"
  by (cases p) (simp_all add: decorate_def stripNewlines_id)

lemma release_absent:
  "map_of (tagColors s) (stripNewlines t) = None \<Longrightarrow> release (Some t) s = s"
  by (simp add: release_def)

lemma release_keep:
  assumes "stripNewlines t = k" "k \<noteq> []" "map_of (tagColors s) k = Some e" "2 \<le> nUsing e"
  shows "release (Some t) s = s\<lparr>tagColors := AList.update k (e\<lparr>nUsing := nUsing e - 1\<rparr>) (tagColors s)\<rparr>"
  using assms by (simp add: release_def Let_def)

lemma release_reclaim:
  assumes "stripNewlines t = k" "k \<noteq> []" "map_of (tagColors s) k = Some e" "nUsing e < 2"
  shows "map_of (tagColors (release (Some t) s)) k = None"
    and "yOffset (release (Some t) s) = yOffset s - lineHeight"
    and "currentTagColorIndex (release (Some t) s)
           = (if currentTagColorIndex s - 1 < 0 then int (length categoricalColors) - 1
              else currentTagColorIndex s - 1)"
  using assms by (simp_all add: release_def Let_def delete_conv')

lemma releaseAll_absent:
  "map_of (tagColors s) k = None \<Longrightarrow> CHR 0x0A \<notin> set k \<Longrightarrow> First \<notin> set ps
   \<Longrightarrow> releaseAll k ps s = s"
  by (induction ps arbitrary: s) (auto simp: release_absent stripNewlines_decorate)

lemma releaseAll_present:
  assumes "k \<noteq> []" "CHR 0x0A \<notin> set k" "First \<notin> set ps"
    and "map_of (tagColors s) k = Some e" "nUsing e \<le> int (length ps)" "ps \<noteq> []"
  shows "map_of (tagColors (releaseAll k ps s)) k = None
         \<and> yOffset (releaseAll k ps s) = yOffset s - lineHeight
         \<and> currentTagColorIndex (releaseAll k ps s)
             = (if currentTagColorIndex s - 1 < 0 then int (length categoricalColors) - 1
                else currentTagColorIndex s - 1)"
  using assms(3-)
proof (induction ps arbitrary: s e)
  case Nil
  then show ?case by simp
next
  case (Cons p ps)
  have sd: "stripNewlines (decorate p k) = k"
    using Cons.prems(1) assms(2) by (auto intro: stripNewlines_decorate)
  show ?case
  proof (cases "nUsing e < 2")
    case True
    note r = release_reclaim [OF sd assms(1) Cons.prems(2) True]
    have "releaseAll k ps (release (Some (decorate p k)) s) = release (Some (decorate p k)) s"
      using Cons.prems(1) assms(2) r(1) by (simp add: releaseAll_absent)
    then show ?thesis using r by simp
  next
    case False
    then have two: "2 \<le> nUsing e" by simp
    let ?s1 = "release (Some (decorate p k)) s"
    have s1: "?s1 = s\<lparr>tagColors := AList.update k (e\<lparr>nUsing := nUsing e - 1\<rparr>) (tagColors s)\<rparr>"
      by (rule release_keep [OF sd assms(1) Cons.prems(2) two])
    have m: "map_of (tagColors ?s1) k = Some (e\<lparr>nUsing := nUsing e - 1\<rparr>)"
      by (simp add: s1 update_conv')
    have len: "nUsing (e\<lparr>nUsing := nUsing e - 1\<rparr>) \<le> int (length ps)"
      using Cons.prems(3) by simp
    have ne: "ps \<noteq> []"
      using two Cons.prems(3) by auto
    from Cons.IH [OF _ m len ne] Cons.prems(1)
    show ?thesis by (simp add: s1)
  qed
qed

lemma acquire_present:
  "map_of (tagColors s) k = Some e \<Longrightarrow>
   snd (acquire lg k s) = s\<lparr>tagColors := AList.update k (e\<lparr>nUsing := nUsing e + 1\<rparr>) (tagColors s)\<rparr>"
  by (simp add: acquire_def)

lemma acquireN_present:
  "map_of (tagColors s) k = Some e \<Longrightarrow>
   map_of (tagColors (acquireN lg k n s)) k = Some (e\<lparr>nUsing := nUsing e + int n\<rparr>)
   \<and> yOffset (acquireN lg k n s) = yOffset s
   \<and> currentTagColorIndex (acquireN lg k n s) = currentTagColorIndex s"
proof (induction n arbitrary: s e)
  case 0
  then show ?case by simp
next
  case (Suc n)
  let ?s1 = "snd (acquire lg k s)"
  have s1: "?s1 = s\<lparr>tagColors := AList.update k (e\<lparr>nUsing := nUsing e + 1\<rparr>) (tagColors s)\<rparr>"
    by (rule acquire_present [OF Suc.prems])
  have m: "map_of (tagColors ?s1) k = Some (e\<lparr>nUsing := nUsing e + 1\<rparr>)"
    by (simp add: s1 update_conv')
  from Suc.IH [OF m] show ?case
    by (simp add: s1 add.assoc)
qed

lemma acquire_absent:
  assumes "map_of (tagColors s) k = None"
  shows "\<exists>e. map_of (tagColors (snd (acquire lg k s))) k = Some e \<and> nUsing e = 0"
    and "yOffset (snd (acquire lg k s)) = yOffset s + lineHeight"
    and "currentTagColorIndex (snd (acquire lg k s))
           = (currentTagColorIndex s + 1) smod int (length categoricalColors)"
  using assms
  by (simp_all add: acquire_def Let_def newObject_def addChild_def update_conv')

lemma cursor_roundtrip:
  assumes "0 \<le> (c::int)" "c < 20"
  shows "(if (c + 1) smod 20 - 1 < 0 then 20 - 1 else (c + 1) smod 20 - 1) = c"
proof (cases "c = 19")
  case True
  then show ?thesis by (simp add: smod_int_alt_def)
next
  case False
  with assms have "c + 1 < 20" by simp
  with assms have "(c + 1) smod 20 = c + 1"
    by (simp add: smod_int_alt_def sgn_if)
  with assms show ?thesis by simp
qed

text \<open>
  C3, as stated ("for every label"), fails for the empty label and for a label with a line
  feed in it. \<^verbatim>\<open>removeLink\<close> releases under the entry's label text with the line breaks
  removed, and only if that string is not empty: one acquisition of the empty label, or of
  the label a, line feed, b, followed by its release, leaves the Legend Entry in place, the
  palette index at 1 (it was 0) and the offset at 22 (it was 5).
\<close>

theorem release_misses_empty_and_multiline_labels:
  "map fst (tagColors (releaseAll [] [PairNone] (acquireN True [] (Suc 0) initial))) = [[]]
   \<and> currentTagColorIndex (releaseAll [] [PairNone] (acquireN True [] (Suc 0) initial)) = 1
   \<and> yOffset (releaseAll [] [PairNone] (acquireN True [] (Suc 0) initial)) = 22
   \<and> map fst (tagColors (releaseAll [CHR ''a'', CHR 0x0A, CHR ''b''] [PairNone]
         (acquireN True [CHR ''a'', CHR 0x0A, CHR ''b''] (Suc 0) initial)))
       = [[CHR ''a'', CHR 0x0A, CHR ''b'']]
   \<and> currentTagColorIndex (releaseAll [CHR ''a'', CHR 0x0A, CHR ''b''] [PairNone]
         (acquireN True [CHR ''a'', CHR 0x0A, CHR ''b''] (Suc 0) initial)) = 1
   \<and> currentTagColorIndex initial = 0 \<and> yOffset initial = 5"
  by (simp add: eval_defs)

lemma empty_label_leaks_through_addLink:
  "(let s = removeLink (edge ''A'' ''B'')
              (addLink (\<lambda>a b. Some []) (edge ''A'' ''B'') True True initial) in
      linksMap s = [] \<and> map fst (tagColors s) = [[]]
      \<and> currentTagColorIndex s = 1 \<and> yOffset s = 22)"
  by (simp add: eval_defs)

text \<open>
  C3, amended: for every non-empty label without a line feed that has no Legend Entry yet,
  and every N \<ge> 1, from any state whose palette index is a valid index of the palette
  (every reachable state is, \<open>cursorOk_reachable\<close> below): acquiring the label N times and
  then releasing it N times, each time through a label text as \<^verbatim>\<open>addLink\<close> writes it (the
  label itself, or two line feeds followed by the label for the second edge of a pair),
  leaves no Legend Entry for the label and restores the palette index and the legend
  offset.
\<close>

theorem acquire_release_roundtrip:
  assumes "label \<noteq> []" and "CHR 0x0A \<notin> set label"
    and "map_of (tagColors s) label = None" and "cursorOk s"
    and "1 \<le> length ps" and "First \<notin> set ps"
  shows "(let s' = releaseAll label ps (acquireN lg label (length ps) s) in
            map_of (tagColors s') label = None
          \<and> currentTagColorIndex s' = currentTagColorIndex s
          \<and> yOffset s' = yOffset s)"
proof -
  from assms(5) obtain n where n: "length ps = Suc n"
    by (cases ps) auto
  let ?s1 = "snd (acquire lg label s)"
  from acquire_absent [OF assms(3), of lg] obtain e where
    e: "map_of (tagColors ?s1) label = Some e" "nUsing e = 0"
    and y1: "yOffset ?s1 = yOffset s + lineHeight"
    and c1: "currentTagColorIndex ?s1 = (currentTagColorIndex s + 1) smod int (length categoricalColors)"
    by blast
  let ?s2 = "acquireN lg label n ?s1"
  from acquireN_present [OF e(1), of lg n]
  have m2: "map_of (tagColors ?s2) label = Some (e\<lparr>nUsing := nUsing e + int n\<rparr>)"
    and y2: "yOffset ?s2 = yOffset ?s1" and c2: "currentTagColorIndex ?s2 = currentTagColorIndex ?s1"
    by simp_all
  have len: "nUsing (e\<lparr>nUsing := nUsing e + int n\<rparr>) \<le> int (length ps)"
    using e(2) n by simp
  have ne: "ps \<noteq> []" using n by auto
  from releaseAll_present [OF assms(1,2,6) m2 len ne]
  have r: "map_of (tagColors (releaseAll label ps ?s2)) label = None"
    "yOffset (releaseAll label ps ?s2) = yOffset ?s2 - lineHeight"
    "currentTagColorIndex (releaseAll label ps ?s2)
       = (if currentTagColorIndex ?s2 - 1 < 0 then int (length categoricalColors) - 1
          else currentTagColorIndex ?s2 - 1)"
    by simp_all
  have len20: "int (length categoricalColors) = 20"
    by (simp add: categoricalColors_def)
  have "currentTagColorIndex (releaseAll label ps ?s2) = currentTagColorIndex s"
    using cursor_roundtrip [of "currentTagColorIndex s"] assms(4)
    unfolding r(3) c2 c1 len20 cursorOk_def by simp
  then show ?thesis
    using r(1,2) y2 y1 by (simp add: n Let_def)
qed

theorem acquire_release_roundtrip_witness:
  "(let s' = releaseAll ''parent'' [PairNone, Second, PairNone]
               (acquireN True ''parent'' (length [PairNone, Second, PairNone]) initial) in
      map_of (tagColors s') ''parent'' = None
    \<and> currentTagColorIndex s' = currentTagColorIndex initial
    \<and> yOffset s' = yOffset initial)
   \<and> map (\<lambda>(k, e). (k, nUsing e)) (tagColors (acquireN True ''parent'' 3 initial))
       = [(''parent'', 2)]
   \<and> currentTagColorIndex (acquireN True ''parent'' 3 initial) = 1
   \<and> yOffset (acquireN True ''parent'' 3 initial) = 22"
proof -
  have h: "''parent'' \<noteq> []" "CHR 0x0A \<notin> set ''parent''"
    "map_of (tagColors initial) ''parent'' = None" "cursorOk initial"
    "1 \<le> length [PairNone, Second, PairNone]" "First \<notin> set [PairNone, Second, PairNone]"
    by (simp_all add: initial_def cursorOk_def categoricalColors_def)
  have a: "map (\<lambda>(k, e). (k, nUsing e)) (tagColors (acquireN True ''parent'' 3 initial))
       = [(''parent'', 2)]
   \<and> currentTagColorIndex (acquireN True ''parent'' 3 initial) = 1
   \<and> yOffset (acquireN True ''parent'' 3 initial) = 22"
    by (simp add: eval_nat_numeral eval_defs)
  show ?thesis
    using acquire_release_roundtrip [OF h, of True] a by simp
qed

section \<open>Invariants of every run\<close>

lemma stageOk_cong:
  "children s' = children s \<Longrightarrow> nextObj s' = nextObj s \<Longrightarrow> stageOk s' = stageOk s"
  by (simp add: stageOk_def)

lemma cursorOk_cong:
  "currentTagColorIndex s' = currentTagColorIndex s \<Longrightarrow> cursorOk s' = cursorOk s"
  by (simp add: cursorOk_def)

lemma stageOk_fields [simp]:
  "stageOk (s\<lparr>linksMap := x\<rparr>) = stageOk s"
  "stageOk (s\<lparr>tagColors := t\<rparr>) = stageOk s"
  "stageOk (s\<lparr>yOffset := y\<rparr>) = stageOk s"
  "stageOk (s\<lparr>currentTagColorIndex := c\<rparr>) = stageOk s"
  by (simp_all add: stageOk_def)

lemma cursorOk_fields [simp]:
  "cursorOk (s\<lparr>linksMap := x\<rparr>) = cursorOk s"
  "cursorOk (s\<lparr>tagColors := t\<rparr>) = cursorOk s"
  "cursorOk (s\<lparr>yOffset := y\<rparr>) = cursorOk s"
  "cursorOk (s\<lparr>nextObj := n\<rparr>) = cursorOk s"
  "cursorOk (addChild e s) = cursorOk s"
  by (simp_all add: cursorOk_def)

lemma stageOk_updateLinkText [simp]: "stageOk (updateLinkText l b s) = stageOk s"
  by (simp add: stageOk_def)

lemma stageOk_updateLinkGraphics [simp]: "stageOk (updateLinkGraphics l s) = stageOk s"
  by (simp add: stageOk_def)

lemma cursorOk_updateLinkText [simp]: "cursorOk (updateLinkText l b s) = cursorOk s"
  by (simp add: cursorOk_def)

lemma cursorOk_updateLinkGraphics [simp]: "cursorOk (updateLinkGraphics l s) = cursorOk s"
  by (simp add: cursorOk_def)

lemma stageOk_newChild:
  "stageOk s \<Longrightarrow> stageOk (addChild (nextObj s) (s\<lparr>nextObj := Suc (nextObj s)\<rparr>))"
  by (auto simp: stageOk_def addChild_def less_Suc_eq)

lemma stageOk_removeIfAttached: "stageOk s \<Longrightarrow> stageOk (removeIfAttached c s)"
  by (auto simp: stageOk_def dest: notin_set_remove1)

lemma stageOk_initializeLinkText: "stageOk s \<Longrightarrow> stageOk (snd (initializeLinkText r l p s))"
  by (cases "r (node_id (source l)) (node_id (target l))")
     (auto simp: initializeLinkText_None initializeLinkText_Some stageOk_def less_Suc_eq)

lemma stageOk_acquire: "stageOk s \<Longrightarrow> stageOk (snd (acquire lg k s))"
  by (cases "map_of (tagColors s) k")
     (auto simp: acquire_def Let_def newObject_def addChild_def stageOk_def less_Suc_eq)

lemma stageOk_initializeLinkGraphics:
  "stageOk s \<Longrightarrow> stageOk (snd (initializeLinkGraphics r l lg s))"
  by (cases "r (node_id (source l)) (node_id (target l))")
     (auto simp: initializeLinkGraphics_None initializeLinkGraphics_Some Let_def
        stageOk_newChild stageOk_acquire)

lemma cursorOk_initializeLinkText [simp]:
  "cursorOk (snd (initializeLinkText r l p s)) = cursorOk s"
  by (simp add: cursorOk_def)

lemma smod_20_range: "0 \<le> (c::int) \<Longrightarrow> 0 \<le> (c + 1) smod 20 \<and> (c + 1) smod 20 < 20"
  by (simp add: smod_int_alt_def sgn_if)

lemma cursorOk_acquire: "cursorOk s \<Longrightarrow> cursorOk (snd (acquire lg k s))"
  by (cases "map_of (tagColors s) k")
     (auto simp: acquire_def Let_def newObject_def addChild_def cursorOk_def
        categoricalColors_def smod_20_range)

lemma cursorOk_initializeLinkGraphics:
  "cursorOk s \<Longrightarrow> cursorOk (snd (initializeLinkGraphics r l lg s))"
  by (cases "r (node_id (source l)) (node_id (target l))")
     (auto simp: initializeLinkGraphics_None initializeLinkGraphics_Some Let_def
        cursorOk_acquire)

lemma stageOk_release: "stageOk s \<Longrightarrow> stageOk (release x s)"
  by (auto simp: release_def Let_def intro!: stageOk_removeIfAttached split: option.splits)

lemma cursorOk_release: "cursorOk s \<Longrightarrow> cursorOk (release x s)"
  by (auto simp: release_def Let_def cursorOk_def categoricalColors_def split: option.splits)

lemma cursorOk_removeIfAttached [simp]: "cursorOk (removeIfAttached c s) = cursorOk s"
  by (simp add: cursorOk_def)

lemma stageOk_addLink: "stageOk s \<Longrightarrow> stageOk (addLink r l tc lg s)"
  by (auto simp: addLink_alt Let_def stageOk_initializeLinkText stageOk_initializeLinkGraphics
        split: option.splits)

lemma cursorOk_addLink: "cursorOk s \<Longrightarrow> cursorOk (addLink r l tc lg s)"
  by (auto simp: addLink_alt Let_def cursorOk_initializeLinkGraphics split: option.splits)

lemma stageOk_removeLink: "stageOk s \<Longrightarrow> stageOk (removeLink l s)"
  by (auto simp: removeLink_def Let_def stageOk_release stageOk_removeIfAttached
        split: option.splits)

lemma cursorOk_removeLink: "cursorOk s \<Longrightarrow> cursorOk (removeLink l s)"
  by (auto simp: removeLink_def Let_def cursorOk_release split: option.splits)

lemma keysConsistent_addLink: "keysConsistent s \<Longrightarrow> keysConsistent (addLink r l tc lg s)"
  unfolding keysConsistent_def
  by (auto simp: pairView_addLink Let_def split: if_splits option.splits)

lemma keysConsistent_removeLink: "keysConsistent s \<Longrightarrow> keysConsistent (removeLink l s)"
  unfolding keysConsistent_def
  by (auto simp: pairView_removeLink Let_def split: if_splits option.splits)

lemma sane_initial: "sane initial"
  by (simp add: sane_def keysConsistent_def stageOk_def cursorOk_def pairView_def initial_def
      categoricalColors_def)

lemma sane_addLink: "sane s \<Longrightarrow> sane (addLink r l tc lg s)"
  by (simp add: sane_def keysConsistent_addLink stageOk_addLink cursorOk_addLink)

lemma sane_removeLink: "sane s \<Longrightarrow> sane (removeLink l s)"
  by (simp add: sane_def keysConsistent_removeLink stageOk_removeLink cursorOk_removeLink)

lemma sane_removeLinksStep: "sane s \<Longrightarrow> sane (removeLinksStep cur k s)"
  by (simp add: removeLinksStep_def sane_removeLink split: option.splits)

lemma sane_destroyMapStep: "sane s \<Longrightarrow> sane (destroyMapStep k s)"
  by (simp add: destroyMapStep_def sane_removeLink split: option.splits)

lemma sane_pairView_eq:
  "pairView s' = pairView s \<Longrightarrow> stageOk s' = stageOk s \<Longrightarrow> cursorOk s' = cursorOk s
   \<Longrightarrow> sane s \<Longrightarrow> sane s'"
  by (simp add: sane_def keysConsistent_def)

lemma sane_step: "sane s \<Longrightarrow> sane (step x s)"
proof (cases x)
  case (OpRemoveLinks links)
  then show "sane s \<Longrightarrow> sane (step x s)"
    by (simp add: removeLinks_def forEachKey_invariant [where P = sane] sane_removeLinksStep)
next
  case OpDestroyMap
  then show "sane s \<Longrightarrow> sane (step x s)"
    by (simp add: destroyMap_def forEachKey_invariant [where P = sane] sane_destroyMapStep)
qed (simp_all add: sane_addLink sane_removeLink sane_pairView_eq)

lemma sane_run: "sane s \<Longrightarrow> sane (run ops s)"
  by (induction ops arbitrary: s) (simp_all add: sane_step)

lemma cursorOk_reachable: "cursorOk (run ops initial)"
  using sane_run [OF sane_initial] by (simp add: sane_def)

lemma map_of_removeLink:
  "map_of (linksMap (removeLink l s)) k =
     (if k = linkKey l then None
      else if k = linkReverseKey l
        then map_option (\<lambda>e. e\<lparr>pairStatus := PairNone\<rparr>) (map_of (linksMap s) k)
      else map_of (linksMap s) k)"
proof -
  define g where "g = map_of (linksMap s) (linkKey l)"
  define s1 where "s1 = (case g of None \<Rightarrow> s
                | Some e \<Rightarrow> (case pixiText e of None \<Rightarrow> s
                             | Some t \<Rightarrow> removeIfAttached (tid t) s))"
  define s2 where "s2 = (case g of None \<Rightarrow> s1
                | Some e \<Rightarrow> (case pixiGraphics e of None \<Rightarrow> s1
                             | Some gr \<Rightarrow> removeIfAttached (gid gr) s1))"
  define s3 where "s3 = release (case g of None \<Rightarrow> None | Some e \<Rightarrow> map_option ttext (pixiText e)) s2"
  define s4 where "s4 = s3\<lparr>linksMap := AList.delete (linkKey l) (linksMap s3)\<rparr>"
  have "linksMap s1 = linksMap s"
    by (simp add: s1_def split: option.splits)
  then have "linksMap s2 = linksMap s"
    by (simp add: s2_def split: option.splits)
  then have "linksMap s3 = linksMap s"
    by (simp add: s3_def)
  then have m4: "map_of (linksMap s4) = (map_of (linksMap s))(linkKey l := None)"
    by (simp add: s4_def delete_conv')
  have "removeLink l s =
          (case map_of (linksMap s4) (linkReverseKey l) of
             None \<Rightarrow> s4
           | Some e \<Rightarrow> if pairStatus e \<noteq> PairNone
               then s4\<lparr>linksMap := AList.update (linkReverseKey l)
                             (e\<lparr>pairStatus := PairNone\<rparr>) (linksMap s4)\<rparr> else s4)"
    unfolding removeLink_def Let_def s4_def s3_def s2_def s1_def g_def ..
  also have "map_of (linksMap \<dots>) k =
      (if k = linkReverseKey l
       then map_option (\<lambda>e. e\<lparr>pairStatus := PairNone\<rparr>) (map_of (linksMap s4) k)
       else map_of (linksMap s4) k)"
    by (cases "map_of (linksMap s4) (linkReverseKey l)") (auto simp: update_conv')
  finally show ?thesis
    unfolding m4 by auto
qed

lemma children_release_subset: "set (children (release x s)) \<subseteq> set (children s)"
  by (auto simp: release_def Let_def split: option.splits
      dest!: subsetD [OF set_remove1_subset])

lemma children_removeLink_subset: "set (children (removeLink l s)) \<subseteq> set (children s)"
proof -
  show ?thesis
    unfolding removeLink_def Let_def
    by (auto split: option.splits dest!: subsetD [OF children_release_subset]
        subsetD [OF set_remove1_subset])
qed

lemma removeLink_detaches:
  assumes "stageOk s" and "map_of (linksMap s) (linkKey l) = Some e"
  shows "elemsOf e \<inter> set (children (removeLink l s)) = {}"
proof -
  define s1 where "s1 = (case pixiText e of None \<Rightarrow> s | Some t \<Rightarrow> removeIfAttached (tid t) s)"
  define s2 where "s2 = (case pixiGraphics e of None \<Rightarrow> s1 | Some gr \<Rightarrow> removeIfAttached (gid gr) s1)"
  have d: "distinct (children s)"
    using assms(1) by (simp add: stageOk_def)
  have e2: "elemsOf e \<inter> set (children s2) = {}"
    using d unfolding s2_def s1_def elemsOf_def
    by (auto split: option.splits)
  have "children (removeLink l s) = children (release (map_option ttext (pixiText e)) s2)"
    unfolding removeLink_def Let_def s2_def s1_def assms(2)
    by (simp split: option.splits)
  then show ?thesis
    using e2 children_release_subset [of "map_option ttext (pixiText e)" s2] by auto
qed

section \<open>Reconciliation\<close>

lemma elemsOf_pairStatus [simp]: "elemsOf (e\<lparr>pairStatus := p\<rparr>) = elemsOf e"
  by (simp add: elemsOf_def)

lemma elems_removeLink_other:
  "k \<noteq> linkKey l \<Longrightarrow>
   map_option elemsOf (map_of (linksMap (removeLink l s)) k)
     = map_option elemsOf (map_of (linksMap s) k)"
  by (simp add: map_of_removeLink option.map_comp comp_def)

lemma stored_key:
  "keysConsistent s \<Longrightarrow> map_of (linksMap s) k = Some e \<Longrightarrow> linkKey (obsidianLink e) = k"
  unfolding keysConsistent_def pairView_def by auto

lemma forEach_removeLinksStep:
  assumes "sane s"
  shows "sane (forEachKey (removeLinksStep cur) ks s)
     \<and> trackedKeys (forEachKey (removeLinksStep cur) ks s) = trackedKeys s - (set ks - set cur)
     \<and> set (children (forEachKey (removeLinksStep cur) ks s)) \<subseteq> set (children s)
     \<and> (\<forall>k e. k \<in> set ks \<and> k \<notin> set cur \<and> map_of (linksMap s) k = Some e
            \<longrightarrow> elemsOf e \<inter> set (children (forEachKey (removeLinksStep cur) ks s)) = {})"
  using assms
proof (induction ks arbitrary: s)
  case Nil
  then show ?case by simp
next
  case (Cons k0 ks)
  let ?s1 = "removeLinksStep cur k0 s"
  let ?s' = "forEachKey (removeLinksStep cur) ks ?s1"
  have sane1: "sane ?s1"
    using Cons.prems by (rule sane_removeLinksStep)
  note IH = Cons.IH [OF sane1]
  have kc: "keysConsistent s" and st: "stageOk s"
    using Cons.prems by (simp_all add: sane_def)
  have tk1: "trackedKeys ?s1 = trackedKeys s - ({k0} - set cur)"
  proof (cases "k0 \<notin> set cur \<and> map_of (linksMap s) k0 \<noteq> None")
    case True
    then obtain e where e: "map_of (linksMap s) k0 = Some e" by auto
    with True have "?s1 = removeLink (obsidianLink e) s"
      by (simp add: removeLinksStep_def)
    then show ?thesis
      using True stored_key [OF kc e] by (auto simp: trackedKeys_removeLink)
  next
    case False
    then have "?s1 = s"
      by (auto simp: removeLinksStep_def)
    moreover have "k0 \<in> set cur \<or> k0 \<notin> trackedKeys s"
      using False by (auto simp: trackedKeys_dom)
    ultimately show ?thesis by auto
  qed
  have ch1: "set (children ?s1) \<subseteq> set (children s)"
    using children_removeLink_subset
    by (auto simp: removeLinksStep_def split: option.splits)
  have det: "elemsOf e \<inter> set (children ?s1) = {}"
    if "k0 \<notin> set cur" "map_of (linksMap s) k0 = Some e" for e
    using that removeLink_detaches [OF st, of "obsidianLink e" e] stored_key [OF kc that(2)]
    by (simp add: removeLinksStep_def)
  have other: "map_option elemsOf (map_of (linksMap ?s1) k) = map_option elemsOf (map_of (linksMap s) k)"
    if "k \<noteq> k0" for k
    using that stored_key [OF kc]
    by (auto simp: removeLinksStep_def elems_removeLink_other split: option.splits)
  have "\<forall>k e. k \<in> set (k0 # ks) \<and> k \<notin> set cur \<and> map_of (linksMap s) k = Some e
            \<longrightarrow> elemsOf e \<inter> set (children ?s') = {}"
  proof (intro allI impI, elim conjE)
    fix k e
    assume k: "k \<in> set (k0 # ks)" "k \<notin> set cur" and e: "map_of (linksMap s) k = Some e"
    show "elemsOf e \<inter> set (children ?s') = {}"
    proof (cases "k = k0")
      case True
      then show ?thesis using det [of e] k e IH by auto
    next
      case False
      with k have in_ks: "k \<in> set ks" by simp
      from other [OF False] e obtain e1 where
        e1: "map_of (linksMap ?s1) k = Some e1" "elemsOf e1 = elemsOf e"
        by (cases "map_of (linksMap ?s1) k") auto
      with IH in_ks k(2) show ?thesis by metis
    qed
  qed
  moreover have "trackedKeys ?s' = trackedKeys s - (set (k0 # ks) - set cur)"
    using IH tk1 by auto
  moreover have "set (children ?s') \<subseteq> set (children s)"
    using IH ch1 by blast
  ultimately show ?case
    using IH by simp
qed

text \<open>
  C5, as stated, fails in "no omissions": \<^verbatim>\<open>removeLinks\<close> only removes. Called on the
  constructor's state with the snapshot [A\<rightarrow>B] it leaves the map empty, while the
  snapshot's key set is {A-B}.
\<close>

theorem removeLinks_adds_nothing:
  "trackedKeys (removeLinks [edge ''A'' ''B''] initial) = {}
   \<and> set (map linkKey [edge ''A'' ''B'']) = {''A-B''}"
  by (simp add: trackedKeys_def removeLinks_def eval_defs)

text \<open>
  C5, amended: in every state reached by a run, after \<^verbatim>\<open>removeLinks\<close> with a snapshot the
  tracked keys are exactly the previously tracked keys that are keys of the snapshot (no
  extras; a snapshot edge that was not tracked is not added here but by \<^verbatim>\<open>addLink\<close>), and
  the label and indicator of every entry removed are no longer on the display list.
\<close>

theorem removeLinks_purges_stale_entries:
  "(let s = run ops initial; s' = removeLinks links s in
      trackedKeys s' = trackedKeys s \<inter> set (map linkKey links)
    \<and> (\<forall>k e. map_of (linksMap s) k = Some e \<and> k \<notin> set (map linkKey links)
           \<longrightarrow> elemsOf e \<inter> set (children s') = {}))"
proof -
  let ?s = "run ops initial"
  have sane: "sane ?s"
    by (rule sane_run [OF sane_initial])
  note f = forEach_removeLinksStep [OF sane, of "map linkKey links" "map fst (linksMap ?s)"]
  have keys: "set (map fst (linksMap ?s)) = trackedKeys ?s"
    by (simp add: trackedKeys_def)
  have "trackedKeys (removeLinks links ?s) = trackedKeys ?s \<inter> set (map linkKey links)"
    using f unfolding removeLinks_def keys by blast
  moreover have "elemsOf e \<inter> set (children (removeLinks links ?s)) = {}"
    if "map_of (linksMap ?s) k = Some e" "k \<notin> set (map linkKey links)" for k e
  proof -
    have "k \<in> set (map fst (linksMap ?s))"
      using that(1) by (metis keys trackedKeys_dom domI)
    then show ?thesis
      using f that unfolding removeLinks_def by blast
  qed
  ultimately show ?thesis
    unfolding Let_def by blast
qed

theorem removeLinks_purges_stale_entries_witness:
  "trackedKeys (removeLinks [edge ''A'' ''C'']
       (run [OpAddLink (\<lambda>a b. Some ''parent'') (edge ''A'' ''B'') True True,
             OpAddLink (\<lambda>a b. Some ''child'') (edge ''A'' ''C'') True True] initial))
     = {''A-C''}
   \<and> map_option elemsOf (map_of (linksMap
       (run [OpAddLink (\<lambda>a b. Some ''parent'') (edge ''A'' ''B'') True True,
             OpAddLink (\<lambda>a b. Some ''child'') (edge ''A'' ''C'') True True] initial)) ''A-B'')
     = Some {0, 3}
   \<and> {0, 3} \<inter> set (children (removeLinks [edge ''A'' ''C'']
       (run [OpAddLink (\<lambda>a b. Some ''parent'') (edge ''A'' ''B'') True True,
             OpAddLink (\<lambda>a b. Some ''child'') (edge ''A'' ''C'') True True] initial))) = {}"
proof -
  let ?ops = "[OpAddLink (\<lambda>a b. Some ''parent'') (edge ''A'' ''B'') True True,
               OpAddLink (\<lambda>a b. Some ''child'') (edge ''A'' ''C'') True True]"
  have tk: "trackedKeys (run ?ops initial) = {''A-B'', ''A-C''}"
    by (simp add: trackedKeys_def eval_defs)
  have cur: "set (map linkKey [edge ''A'' ''C'']) = {''A-C''}"
    by (simp add: eval_defs)
  have "map (\<lambda>(k, e). (k, elemsOf e)) (linksMap (run ?ops initial))
          = [(''A-B'', {0, 3}), (''A-C'', {4, 7})]"
    by (simp add: elemsOf_def eval_defs eval_nat_numeral insert_commute)
  then obtain e where e: "map_of (linksMap (run ?ops initial)) ''A-B'' = Some e" "elemsOf e = {0, 3}"
    by (cases "linksMap (run ?ops initial)") auto
  have nc: "''A-B'' \<notin> set (map linkKey [edge ''A'' ''C''])"
    unfolding cur by simp
  from removeLinks_purges_stale_entries [of ?ops "[edge ''A'' ''C'']"]
  have "trackedKeys (removeLinks [edge ''A'' ''C''] (run ?ops initial))
          = trackedKeys (run ?ops initial) \<inter> set (map linkKey [edge ''A'' ''C''])"
    and "elemsOf e \<inter> set (children (removeLinks [edge ''A'' ''C''] (run ?ops initial))) = {}"
    unfolding Let_def using e(1) nc by blast+
  then show ?thesis
    unfolding tk cur using e by auto
qed

section \<open>The order of calls within one tick\<close>

lemma addsFollowed_refreshCalls [simp]:
  "addsFollowed (refreshCalls st link @ es) = addsFollowed es"
  by (simp add: refreshCalls_def)

lemma filter_refreshCalls [simp]:
  "filter (\<lambda>e. \<not> isAddLink e) (refreshCalls st link) = refreshCalls st link"
  by (simp add: refreshCalls_def)





section \<open>Ids without the separator\<close>

text \<open>
  The key function is injective on every set of ids that do not contain the separator,
  so the statements above that assume \<open>keyInj U\<close> cover all such ids.
\<close>

lemma generateKey_inj_no_separator:
  assumes "CHR ''-'' \<notin> set a" and "CHR ''-'' \<notin> set c"
    and "generateKey a b = generateKey c d"
  shows "a = c \<and> b = d"
  using assms unfolding generateKey_def
proof (induction a arbitrary: c)
  case Nil
  then show ?case by (cases c) auto
next
  case (Cons x xs)
  then show ?case by (cases c) auto
qed

lemma keyInj_no_separator: "\<forall>a\<in>U. CHR ''-'' \<notin> set a \<Longrightarrow> keyInj U"
  unfolding keyInj_def by (blast dest: generateKey_inj_no_separator)

section \<open>What a structural sync achieves\<close>

text \<open>
  \<^verbatim>\<open>removeLinks\<close> alone does not make the tracked keys equal to the snapshot's keys; together
  with the \<^verbatim>\<open>addLink\<close> calls of the same tick it does: after a structural-sync tick in any
  reachable state, the tracked keys are exactly the keys of the live edges.
\<close>

lemma trackedKeys_updateLinkText [simp]:
  "trackedKeys (updateLinkText l b s) = trackedKeys s"
  by (simp add: trackedKeys_pairView)

lemma trackedKeys_updateLinkGraphics [simp]:
  "trackedKeys (updateLinkGraphics l s) = trackedKeys s"
  by (simp add: trackedKeys_pairView)

lemma updatePositionsLoop_tracks:
  "trackedKeys (fst (updatePositionsLoop r st True links (s, evs)))
     = trackedKeys s \<union> set (map linkKey links)"
proof (induction links arbitrary: s evs)
  case Nil
  then show ?case by simp
next
  case (Cons link links)
  define add where "add = (map_of (linksMap s) (linkKey link) = None)"
  define s1 where "s1 = (if add then addLink r link (set_tagColors st) (set_tagLegend st) s else s)"
  define s3 where "s3 = (if set_tagColors st
      then updateLinkGraphics link (updateLinkText link (set_tagNames st) s1)
      else updateLinkText link (set_tagNames st) s1)"
  define b where "b = (if add then [EvAddLink link] else []) @ refreshCalls st link"
  have step: "updatePositionsLoop r st True (link # links) (s, evs)
                = updatePositionsLoop r st True links (s3, evs @ b)"
    by (simp add: Let_def add_def s1_def s3_def b_def refreshCalls_def)
  have "trackedKeys s3 = trackedKeys s1"
    by (simp add: s3_def)
  moreover have "trackedKeys s1 = insert (linkKey link) (trackedKeys s)"
  proof (cases add)
    case True
    then show ?thesis by (simp add: s1_def trackedKeys_addLink)
  next
    case False
    then have "linkKey link \<in> trackedKeys s"
      unfolding add_def trackedKeys_dom by auto
    with False show ?thesis by (auto simp: s1_def)
  qed
  ultimately have "trackedKeys s3 = insert (linkKey link) (trackedKeys s)"
    by simp
  then show ?case
    unfolding step using Cons.IH [of s3 "evs @ b"] by auto
qed

lemma removeLinks_trackedKeys:
  assumes "sane s"
  shows "trackedKeys (removeLinks links s) = trackedKeys s \<inter> set (map linkKey links)"
proof -
  have "set (map fst (linksMap s)) = trackedKeys s"
    by (simp add: trackedKeys_def)
  then show ?thesis
    using forEach_removeLinksStep [OF assms, of "map linkKey links" "map fst (linksMap s)"]
    unfolding removeLinks_def by blast
qed

lemma structural_sync_tracks_snapshot:
  assumes "n \<noteq> 0" and "n mod 10 = 0"
  shows "trackedKeys (fst (updatePositions r st True (Some n) links (run ops initial)))
           = set (map linkKey links)"
  using assms removeLinks_trackedKeys [OF sane_run [OF sane_initial], of links ops]
  by (auto simp: updatePositions_def Let_def updatePositionsLoop_tracks)

end
